theory Spec2Isabelle
  imports Main
begin

section \<open>Python values, exceptions and the log\<close>

text \<open>
  The adapter receives the scanner's JSON report as Python's \<open>json\<close> module decodes it:
  \<open>None\<close>, booleans, numbers, strings, lists and dicts. A dict is an association list in
  insertion order (its keys are distinct, as in Python). Characters are code points below
  256. The adapter never computes with a number; a non-integer number is kept as the text
  Python prints for it.
\<close>

datatype json =
    JNull
  | JBool bool
  | JInt int
  | JFloat string
  | JStr string
  | JArr "json list"
  | JObj "(string \<times> json) list"

text \<open>The exceptions the adapter can raise; a \<open>KeyError\<close> carries the missing key.\<close>

datatype error = KeyError string | TypeError | AttributeError | ValueError

text \<open>\<open>logger.warning\<close> appends one record to the log.\<close>

datatype log_record = Warning string

type_synonym log = "log_record list"

text \<open>\<open>x[k]\<close> for a string key: only a dict can be subscripted with a string.\<close>

fun py_getitem :: "json \<Rightarrow> string \<Rightarrow> error + json" where
  "py_getitem (JObj d) k = (case map_of d k of None \<Rightarrow> Inl (KeyError k) | Some v \<Rightarrow> Inr v)"
| "py_getitem _ k = Inl TypeError"

text \<open>\<open>x.get(k, default)\<close>: only a dict has the method.\<close>

fun py_get :: "json \<Rightarrow> string \<Rightarrow> json \<Rightarrow> error + json" where
  "py_get (JObj d) k dflt = Inr (case map_of d k of None \<Rightarrow> dflt | Some v \<Rightarrow> v)"
| "py_get _ k dflt = Inl AttributeError"

text \<open>
  \<open>for x in v\<close>: a list yields its elements, a string its characters, a dict its keys;
  nothing else is iterable.
\<close>

fun py_iter :: "json \<Rightarrow> error + json list" where
  "py_iter (JArr xs) = Inr xs"
| "py_iter (JStr s) = Inr (map (\<lambda>c. JStr [c]) s)"
| "py_iter (JObj d) = Inr (map (\<lambda>kv. JStr (fst kv)) d)"
| "py_iter _ = Inl TypeError"

text \<open>Lists and dicts are unhashable: using one as a dict key raises \<open>TypeError\<close>.\<close>

fun hashable :: "json \<Rightarrow> bool" where
  "hashable (JArr _) = False"
| "hashable (JObj _) = False"
| "hashable _ = True"

text \<open>Decimal digits of a number, for \<open>str\<close> of an integer.\<close>

fun show_nat :: "nat \<Rightarrow> string" where
  "show_nat n =
     (if n < 10 then [char_of (48 + n)] else show_nat (n div 10) @ [char_of (48 + n mod 10)])"

declare show_nat.simps [simp del]

definition show_int :: "int \<Rightarrow> string" where
  "show_int i = (if i < 0 then CHR ''-'' # show_nat (nat (- i)) else show_nat (nat i))"

text \<open>
  \<open>str(v)\<close> as an f-string formats a hashable value. (Lists and dicts never reach the
  only f-string of the adapter, so they are left out.)
\<close>

fun py_str :: "json \<Rightarrow> string" where
  "py_str JNull = ''None''"
| "py_str (JBool b) = (if b then ''True'' else ''False'')"
| "py_str (JInt i) = show_int i"
| "py_str (JFloat r) = r"
| "py_str (JStr s) = s"

section \<open>String operations of the standard library\<close>

text \<open>\<open>s.split(sep)\<close> for a one-character separator: every occurrence separates.\<close>

fun split_on :: "char \<Rightarrow> string \<Rightarrow> string list" where
  "split_on sep [] = [[]]"
| "split_on sep (c # cs) =
     (if c = sep then [] # split_on sep cs
      else (case split_on sep cs of [] \<Rightarrow> [[c]] | p # ps \<Rightarrow> (c # p) # ps))"

text \<open>\<open>sep.join(xs)\<close>.\<close>

fun join :: "string \<Rightarrow> string list \<Rightarrow> string" where
  "join sep [] = []"
| "join sep [x] = x"
| "join sep (x # y # ys) = x @ sep @ join sep (y # ys)"

text \<open>\<open>s.rfind(c)\<close>: the index of the last occurrence, \<open>None\<close> for Python's \<open>-1\<close>.\<close>

fun rfind :: "char \<Rightarrow> string \<Rightarrow> nat option" where
  "rfind c [] = None"
| "rfind c (x # xs) =
     (case rfind c xs of Some i \<Rightarrow> Some (Suc i) | None \<Rightarrow> if x = c then Some 0 else None)"

text \<open>
  \<open>pathlib.Path(p).name\<close> and \<open>.stem\<close> on a POSIX system: the name is the last path
  component that is neither empty nor \<open>.\<close>; the stem is the name without its last suffix,
  where a leading or a trailing dot starts no suffix.
\<close>

definition path_name :: "string \<Rightarrow> string" where
  "path_name p =
     (case filter (\<lambda>x. x \<noteq> [] \<and> x \<noteq> ''.'') (split_on CHR ''/'' p) of
        [] \<Rightarrow> []
      | x # xs \<Rightarrow> last (x # xs))"

definition stem :: "string \<Rightarrow> string" where
  "stem p =
     (let name = path_name p in
      case rfind CHR ''.'' name of
        None \<Rightarrow> name
      | Some i \<Rightarrow> if 0 < i \<and> Suc i < length name then take i name else name)"

text \<open>\<open>Path(v).stem\<close>: \<open>Path\<close> accepts a string only.\<close>

fun Path_stem :: "json \<Rightarrow> error + string" where
  "Path_stem (JStr p) = Inr (stem p)"
| "Path_stem _ = Inl TypeError"

section \<open>Regular expressions\<close>

text \<open>
  The character classes \<open>\d\<close> and \<open>\w\<close> of Python's \<open>re\<close> on \<open>str\<close> patterns, for code
  points below 256: the decimal digits, and the alphanumeric characters with the
  underscore.
\<close>

definition is_digit :: "char \<Rightarrow> bool" where
  "is_digit c = (let n = (of_char c :: nat) in 48 \<le> n \<and> n \<le> 57)"

definition is_word :: "char \<Rightarrow> bool" where
  "is_word c =
     (let n = (of_char c :: nat) in
        (48 \<le> n \<and> n \<le> 57) \<or> (65 \<le> n \<and> n \<le> 90) \<or> n = 95 \<or> (97 \<le> n \<and> n \<le> 122) \<or>
        n = 170 \<or> n = 178 \<or> n = 179 \<or> n = 181 \<or> n = 185 \<or> n = 186 \<or>
        (188 \<le> n \<and> n \<le> 190) \<or> (192 \<le> n \<and> n \<le> 214) \<or>
        (216 \<le> n \<and> n \<le> 246) \<or> (248 \<le> n \<and> n \<le> 255))"

text \<open>
  The fragment of the pattern language that \<open>check_id_pattern\<close> uses: \<open>^\<close>, \<open>\w\<close>, \<open>\d\<close>,
  a literal character, concatenation and the greedy \<open>+\<close>.
\<close>

datatype regex = Bol | Word | Digit | Lit char | Seq regex regex | Plus regex

text \<open>
  A backtracking matcher. \<open>rmatch r (i, s)\<close> matches \<open>r\<close> at offset \<open>i\<close>, where \<open>s\<close> is the
  text from \<open>i\<close> on, and lists every way to match as (end offset, remaining text), in the
  order in which the backtracking engine tries them: a greedy \<open>+\<close> tries one more
  repetition before it stops, and does not repeat after an empty match.
\<close>

fun rmatch :: "regex \<Rightarrow> nat \<times> string \<Rightarrow> (nat \<times> string) list" where
  "rmatch Bol (i, s) = (if i = 0 then [(i, s)] else [])"
| "rmatch Word (i, s) =
     (case s of [] \<Rightarrow> [] | c # cs \<Rightarrow> if is_word c then [(Suc i, cs)] else [])"
| "rmatch Digit (i, s) =
     (case s of [] \<Rightarrow> [] | c # cs \<Rightarrow> if is_digit c then [(Suc i, cs)] else [])"
| "rmatch (Lit a) (i, s) =
     (case s of [] \<Rightarrow> [] | c # cs \<Rightarrow> if c = a then [(Suc i, cs)] else [])"
| "rmatch (Seq a b) (i, s) = concat (map (rmatch b) (rmatch a (i, s)))"
| "rmatch (Plus a) (i, s) =
     concat (map (\<lambda>(j, r). (if length r < length s then rmatch (Plus a) (j, r) else []) @ [(j, r)])
                 (rmatch a (i, s)))"

text \<open>The equation of \<open>+\<close> is recursive on any argument: it is unfolded by hand.\<close>

declare rmatch.simps(6) [simp del]

text \<open>
  \<open>pattern.search(s)\<close> tries the offsets from left to right and returns the span of the
  first match found.
\<close>

fun search_from :: "regex \<Rightarrow> nat \<Rightarrow> string \<Rightarrow> (nat \<times> nat) option" where
  "search_from r i [] =
     (case rmatch r (i, []) of (j, _) # _ \<Rightarrow> Some (i, j) | [] \<Rightarrow> None)"
| "search_from r i (c # cs) =
     (case rmatch r (i, c # cs) of (j, _) # _ \<Rightarrow> Some (i, j) | [] \<Rightarrow> search_from r (Suc i) cs)"

definition re_search :: "regex \<Rightarrow> string \<Rightarrow> (nat \<times> nat) option" where
  "re_search r s = search_from r 0 s"

text \<open>\<open>re.compile(r"^(\w+(?:-\d+)+)")\<close>\<close>

definition check_id_pattern :: regex where
  "check_id_pattern = Seq Bol (Seq (Plus Word) (Plus (Seq (Lit CHR ''-'') (Plus Digit))))"

text \<open>
  The identifier extractor of \<open>parse_results\<close>: \<open>m = check_id_pattern.search(obj_name)\<close>,
  then \<open>m.group(1) if m is not None else None\<close>. The only group of the pattern encloses
  everything after \<open>^\<close>, which matches no character, so group 1 is the text of the match.
\<close>

definition extract_check_id :: "string \<Rightarrow> string option" where
  "extract_check_id obj_name =
     (case re_search check_id_pattern obj_name of
        None \<Rightarrow> None
      | Some (b, e) \<Rightarrow> Some (take (e - b) (drop b obj_name)))"

section \<open>The mapping table and the path resolver\<close>

text \<open>
  Modelled from the spec: the enumerations \<open>CheckCategory\<close> and \<open>CheckStatus\<close> and the
  record \<open>CheckResult\<close> are declared in \<open>scanner_evaluator\<close>, which is not among the
  sources. The categories are the ones the table uses, the status is binary, and the
  result record has the fields that \<open>parse_results\<close> fills.
\<close>

datatype CheckCategory = Workload | Reliability | Network | IAM | DataSecurity | AdmissionControl

datatype CheckStatus = Alert | Pass

record CheckResult =
  check_id :: "string option"
  obj_name :: string
  scanner_check_id :: json
  scanner_check_name :: json
  checked_path :: string
  severity :: json
  got :: CheckStatus
  details :: json
  extra :: json

text \<open>
  The three shapes that \<open>get_checked_path\<close> tells apart in the second component of a
  table entry: a string, a list of strings, or \<open>None\<close>.
\<close>

datatype paths = Single string | Multiple "string list" | Absent

type_synonym mapping = "(string \<times> CheckCategory \<times> paths) list"

definition CHECK_MAPPING :: mapping where
  "CHECK_MAPPING =
    [(''KSV001'', Workload, Multiple [''.spec.containers[].securityContext.allowPrivilegeEscalation'']),
     (''KSV002'', Workload, Multiple
      [''.metadata.annotations.container.apparmor.security.beta.kubernetes.io'' @
       ''.metadata.annotations[container.apparmor.security.beta.kubernetes.io]'']),
     (''KSV003'', Workload, Multiple [''.spec.containers[].securityContext.capabilities.drop'']),
     (''KSV004'', Workload, Multiple [''.spec.containers[].securityContext.capabilities.drop'']),
     (''KSV005'', Workload, Multiple [''.spec.containers[].securityContext.capabilities.add'']),
     (''KSV006'', Workload, Multiple [''.spec.volumes[].hostPath.path'']),
     (''KSV007'', Workload, Multiple [''.spec.hostAliases'']),
     (''KSV008'', Workload, Multiple [''.spec.hostIPC'']),
     (''KSV009'', Workload, Multiple [''.spec.hostNetwork'']),
     (''KSV010'', Workload, Multiple [''.spec.hostPID'']),
     (''KSV011'', Reliability, Multiple [''.spec.containers[].resources.limits.cpu'']),
     (''KSV012'', Workload, Multiple
      [''.spec.securityContext.runAsNonRoot'',
       ''.spec.containers[].securityContext.runAsNonRoot'']),
     (''KSV013'', Workload, Multiple [''.spec.containers[].image'']),
     (''KSV014'', Workload, Multiple [''.spec.containers[].securityContext.readOnlyRootFilesystem'']),
     (''KSV015'', Reliability, Multiple [''.spec.containers[].resources.requests.cpu'']),
     (''KSV016'', Reliability, Multiple [''.spec.containers[].resources.requests.memory'']),
     (''KSV017'', Workload, Multiple [''.spec.containers[].securityContext.privileged'']),
     (''KSV018'', Reliability, Multiple [''.spec.containers[].resources.limits.memory'']),
     (''KSV020'', Workload, Multiple [''.spec.containers[].securityContext.runAsUser'']),
     (''KSV021'', Workload, Multiple [''.spec.containers[].securityContext.runAsGroup'']),
     (''KSV022'', Workload, Multiple [''.spec.containers[].securityContext.capabilities.add'']),
     (''KSV023'', Workload, Multiple [''.spec.volumes[].hostPath'']),
     (''KSV024'', Workload, Multiple
      [''.spec.containers[].ports[].hostPort'',
       ''.spec.initContainers[].ports[].hostPort'']),
     (''KSV025'', Workload, Multiple
      [''.spec.securityContext.seLinuxOptions'',
       ''.spec.containers[].securityContext.seLinuxOptions'']),
     (''KSV026'', Workload, Multiple [''.spec.securityContext.sysctls[]'']),
     (''KSV027'', Workload, Multiple
      [''.spec.containers[].securityContext.procMount'',
       ''.spec.initContainers[].securityContext.procMount'']),
     (''KSV028'', Workload, Multiple [''.spec.volumes[]'']),
     (''KSV116'', Workload, Multiple
      [''.spec.securityContext.fsGRoup'',
       ''.spec.securityContext.supplementalGroups'',
       ''.spec.securityContext.runAsGroup'',
       ''.spec.containers[].securityContext.runAsGroup'']),
     (''KSV030'', Workload, Multiple
      [''.spec.securityContext.seccompProfile.type'',
       ''.spec.containers[].securityContext.seccompProfile.type'',
       ''.metadata.annotations[seccomp.security.alpha.kubernetes.io/pod'']),
     (''KSV032'', Workload, Multiple
      [''.spec.containers[].image'',
       ''.spec.containers[].name'']),
     (''KSV033'', Workload, Multiple
      [''.spec.containers[].image'',
       ''.spec.containers[].name'']),
     (''KSV034'', Workload, Multiple [''.spec.containers[].image'']),
     (''KSV035'', Workload, Multiple
      [''.spec.containers[].image'',
       ''.spec.containers[].name'']),
     (''KSV036'', Workload, Multiple
      [''.spec.automountServiceAccountToken'',
       ''.automountServiceAccountToken'',
       ''.spec.containers[].volumeMounts[].mountPath'']),
     (''KSV037'', Workload, Multiple [''.metadata.namespace'']),
     (''KSV038'', Network, Multiple
      [''NetworkPolicy.spec.podSelector'',
       ''.spec.podSelector'',
       ''NetworkPolicy.spec.podSelector.matchLabels'',
       ''NetworkPolicy.ingress[].from[].namespaceSelector'',
       ''NetworkPolicy.ingress[].from[].podSelector'',
       ''NetworkPolicy.egress[].from[].namespaceSelector'',
       ''NetworkPolicy.egress[].from[].podSelector'',
       ''NetworkPolicy.spec.policyTypes[]'']),
     (''KSV039'', Reliability, Multiple
      [''LimitRange.metadata.namespace'',
       ''LimitRange.spec.limits[].type'',
       ''LimitRange.spec.limits[].max'',
       ''LimitRange.spec.limits[].min'',
       ''LimitRange.spec.limits[].default'',
       ''LimitRange.spec.limits[].defaultRequest'']),
     (''KSV040'', Reliability, Multiple
      [''ResourceQuota.metadata.namespace'',
       ''ResourceQuota.spec.hard.requests.cpu'',
       ''ResourceQuota.spec.hard.requests.memory'',
       ''ResourceQuota.spec.hard.limits.cpu'',
       ''ResourceQuota.spec.hard.limits.memory'',
       ''ResourceQuota.spec.hard.limits[].defaultRequest'']),
     (''KSV041'', IAM, Multiple
      [''ClusterRole.rules[].resources'',
       ''ClusterRole.rules[].verbs'',
       ''Role.rules[].resources'',
       ''Role.rules[].verbs'']),
     (''KSV042'', IAM, Multiple
      [''ClusterRole.rules[].apiGroups'',
       ''ClusterRole.rules[].resources'',
       ''ClusterRole.rules[].verbs'',
       ''Role.rules[].apiGroups'',
       ''Role.rules[].resources'',
       ''Role.rules[].verbs'']),
     (''KSV043'', IAM, Multiple
      [''ClusterRole.rules[].apiGroups'',
       ''ClusterRole.rules[].resources'',
       ''ClusterRole.rules[].verbs'',
       ''Role.rules[].apiGroups'',
       ''Role.rules[].resources'',
       ''Role.rules[].verbs'']),
     (''KSV044'', IAM, Multiple
      [''ClusterRole.rules[].resources'',
       ''ClusterRole.rules[].verbs'',
       ''Role.rules[].resources'',
       ''Role.rules[].verbs'']),
     (''KSV045'', IAM, Multiple
      [''ClusterRole.rules[].resources'',
       ''ClusterRole.rules[].verbs'',
       ''Role.rules[].resources'',
       ''Role.rules[].verbs'']),
     (''KSV046'', IAM, Multiple
      [''ClusterRole.rules[].resources'',
       ''ClusterRole.rules[].verbs'',
       ''Role.rules[].resources'',
       ''Role.rules[].verbs'']),
     (''KSV047'', IAM, Multiple
      [''ClusterRole.rules[].resources'',
       ''ClusterRole.rules[].verbs'',
       ''Role.rules[].resources'',
       ''Role.rules[].verbs'']),
     (''KSV048'', IAM, Multiple
      [''ClusterRole.rules[].resources'',
       ''ClusterRole.rules[].verbs'',
       ''Role.rules[].resources'',
       ''Role.rules[].verbs'']),
     (''KSV049'', IAM, Multiple
      [''ClusterRole.rules[].resources'',
       ''ClusterRole.rules[].verbs'',
       ''Role.rules[].resources'',
       ''Role.rules[].verbs'']),
     (''KSV050'', IAM, Multiple
      [''ClusterRole.rules[].resources'',
       ''ClusterRole.rules[].verbs'',
       ''Role.rules[].resources'',
       ''Role.rules[].verbs'']),
     (''KSV051'', IAM, Multiple
      [''ClusterRole.rules[].apiGroups'',
       ''ClusterRole.rules[].resources'',
       ''ClusterRole.rules[].verbs'',
       ''ClusterRole.rules[].resourceNames'',
       ''Role.rules[].apiGroups'',
       ''Role.rules[].resources'',
       ''Role.rules[].verbs'',
       ''Role.rules[].resourceNames'']),
     (''KSV052'', IAM, Multiple
      [''ClusterRole.rules[].apiGroups'',
       ''ClusterRole.rules[].resources'',
       ''ClusterRole.rules[].verbs'',
       ''ClusterRole.rules[].resourceNames'',
       ''Role.rules[].apiGroups'',
       ''Role.rules[].resources'',
       ''Role.rules[].verbs'',
       ''Role.rules[].resourceNames'']),
     (''KSV053'', IAM, Multiple
      [''ClusterRole.rules[].apiGroups'',
       ''ClusterRole.rules[].resources'',
       ''ClusterRole.rules[].verbs'',
       ''Role.rules[].apiGroups'',
       ''Role.rules[].resources'',
       ''Role.rules[].verbs'']),
     (''KSV054'', IAM, Multiple
      [''ClusterRole.rules[].apiGroups'',
       ''ClusterRole.rules[].resources'',
       ''ClusterRole.rules[].verbs'',
       ''Role.rules[].apiGroups'',
       ''Role.rules[].resources'',
       ''Role.rules[].verbs'']),
     (''KSV055'', IAM, Multiple
      [''ClusterRole.rules[].apiGroups'',
       ''ClusterRole.rules[].resources'',
       ''ClusterRole.rules[].verbs'',
       ''Role.rules[].apiGroups'',
       ''Role.rules[].resources'',
       ''Role.rules[].verbs'']),
     (''KSV056'', IAM, Multiple
      [''ClusterRole.rules[].resources'',
       ''ClusterRole.rules[].verbs'',
       ''Role.rules[].resources'',
       ''Role.rules[].verbs'']),
     (''KSV102'', Workload, Multiple
      [''.metadata.name'',
       ''.spec.containers[].image'']),
     (''KSV104'', Workload, Multiple
      [''.spec.securityContext.seccompProfile.type'',
       ''.spec.containers[].securityContext.seccompProfile.type'',
       ''.metadata.annotations[seccomp.security.alpha.kubernetes.io/pod'']),
     (''KSV105'', AdmissionControl, Multiple
      [''.spec.securityContext.runAsUser'',
       ''.spec.containers[].securityContext.runAsUser'']),
     (''KSV106'', AdmissionControl, Multiple
      [''.spec.containers[].securityContext.capabilities.drop'',
       ''.spec.containers[].securityContext.capabilities.add'']),
     (''KSV111'', IAM, Multiple
      [''ClusterRoleBinding.roleRef.name'',
       ''RoleBinding.roleRef.name'']),
     (''KSV112'', IAM, Multiple
      [''ClusterRole.rules[].apiGroups'',
       ''ClusterRole.rules[].resources'',
       ''ClusterRole.rules[].verbs'',
       ''Role.rules[].apiGroups'',
       ''Role.rules[].resources'',
       ''Role.rules[].verbs'']),
     (''KSV113'', IAM, Multiple
      [''ClusterRole.rules[].apiGroups'',
       ''ClusterRole.rules[].resources'',
       ''ClusterRole.rules[].verbs'',
       ''Role.rules[].apiGroups'',
       ''Role.rules[].resources'',
       ''Role.rules[].verbs'']),
     (''KSV119'', Workload, Multiple [''.spec.containers[].securityContext.capabilities.add'']),
     (''KSV120'', Workload, Multiple [''.spec.containers[].securityContext.capabilities.add'']),
     (''KSV121'', Workload, Multiple [''.spec.volumes[].hostPath.path'']),
     (''AVD-KSV-0109'', DataSecurity, Multiple [''ConfigMap.data'']),
     (''AVD-KSV-01010'', DataSecurity, Multiple [''ConfigMap.data''])]"

text \<open>
  \<open>_, paths = mapping.get(check_id, (None, None))\<close>: every key of the table is a string, so
  no other hashable value is found; an unhashable one raises.
\<close>

definition lookup_paths :: "mapping \<Rightarrow> json \<Rightarrow> error + paths" where
  "lookup_paths mapping cid =
     (if \<not> hashable cid then Inl TypeError
      else case cid of
             JStr s \<Rightarrow> (case map_of mapping s of None \<Rightarrow> Inr Absent | Some (_, ps) \<Rightarrow> Inr ps)
           | _ \<Rightarrow> Inr Absent)"

text \<open>The body of \<open>get_checked_path\<close>, with the table it reads as a parameter.\<close>

definition get_checked_path_in :: "mapping \<Rightarrow> json \<Rightarrow> log \<Rightarrow> (error + string) \<times> log" where
  "get_checked_path_in mapping cid lg =
     (case lookup_paths mapping cid of
        Inl e \<Rightarrow> (Inl e, lg)
      | Inr (Single p) \<Rightarrow> (Inr p, lg)
      | Inr (Multiple ps) \<Rightarrow> (Inr (join ''|'' ps), lg)
      | Inr Absent \<Rightarrow>
          (Inr [],
           lg @ [Warning (''trivy check '' @ [CHR 0x27] @ py_str cid @ [CHR 0x27] @
                          '' not found in the mapping'')]))"

definition get_checked_path :: "json \<Rightarrow> log \<Rightarrow> (error + string) \<times> log" where
  "get_checked_path = get_checked_path_in CHECK_MAPPING"

section \<open>The result parser\<close>

text \<open>
  A computation of the adapter reads and extends the log and either raises or returns.
  \<open>bind\<close> runs the next statement unless the previous one raised; \<open>lift\<close> is a step that
  leaves the log alone.
\<close>

type_synonym 'a py = "log \<Rightarrow> (error + 'a) \<times> log"

definition ret :: "'a \<Rightarrow> 'a py" where
  "ret x lg = (Inr x, lg)"

definition lift :: "error + 'a \<Rightarrow> 'a py" where
  "lift r lg = (r, lg)"

definition bind :: "'a py \<Rightarrow> ('a \<Rightarrow> 'b py) \<Rightarrow> 'b py" where
  "bind m f lg = (case m lg of (r, lg') \<Rightarrow> (case r of Inl e \<Rightarrow> (Inl e, lg') | Inr x \<Rightarrow> f x lg'))"

text \<open>
  The body of the inner loop of \<open>parse_results\<close>, for one finding \<open>misconfig\<close> of the file
  entry \<open>result\<close>: the steps in the order in which Python evaluates them, each of which may
  raise. It returns the record that the loop appends.
\<close>

definition parse_misconfig :: "json \<Rightarrow> json \<Rightarrow> CheckResult py" where
  "parse_misconfig result misconfig =
     bind (lift (py_getitem result ''Target'')) (\<lambda>target.
     bind (lift (Path_stem target)) (\<lambda>name.
     bind (lift (py_getitem misconfig ''Status'')) (\<lambda>st.
     bind (lift (py_getitem misconfig ''ID'')) (\<lambda>cid.
     bind (get_checked_path cid) (\<lambda>path.
     bind (lift (py_getitem misconfig ''Title'')) (\<lambda>title.
     bind (lift (py_getitem misconfig ''Severity'')) (\<lambda>sev.
     bind (lift (py_getitem misconfig ''Description'')) (\<lambda>descr.
     bind (lift (py_getitem misconfig ''Message'')) (\<lambda>msg.
     ret \<lparr> check_id = extract_check_id name,
           obj_name = name,
           scanner_check_id = cid,
           scanner_check_name = title,
           checked_path = path,
           severity = sev,
           got = (if st = JStr ''FAIL'' then Alert else Pass),
           details = descr,
           extra = msg \<rparr>)))))))))"

text \<open>\<open>for misconfig in ...\<close>: the list \<open>check_results\<close> grows by one record per finding.\<close>

fun misconfig_loop :: "json \<Rightarrow> json list \<Rightarrow> CheckResult list \<Rightarrow> CheckResult list py" where
  "misconfig_loop result [] check_results lg = ret check_results lg"
| "misconfig_loop result (misconfig # rest) check_results lg =
     bind (parse_misconfig result misconfig)
          (\<lambda>r. misconfig_loop result rest (check_results @ [r])) lg"

text \<open>\<open>for result in ...\<close>, with \<open>result.get("Misconfigurations", [])\<close> for the inner loop.\<close>

fun result_loop :: "json list \<Rightarrow> CheckResult list \<Rightarrow> CheckResult list py" where
  "result_loop [] check_results lg = ret check_results lg"
| "result_loop (result # rest) check_results lg =
     bind (lift (py_get result ''Misconfigurations'' (JArr []))) (\<lambda>v.
     bind (lift (py_iter v)) (\<lambda>misconfigs.
     bind (misconfig_loop result misconfigs check_results) (\<lambda>check_results'.
     result_loop rest check_results'))) lg"

definition parse_results :: "json \<Rightarrow> CheckResult list py" where
  "parse_results results =
     bind (lift (py_getitem results ''Results'')) (\<lambda>v.
     bind (lift (py_iter v)) (\<lambda>rs.
     result_loop rs []))"

section \<open>The version resolver\<close>

text \<open>
  \<open>get_version\<close>, given the text \<open>raw_version\<close> that the version command printed (the base
  class, which runs the command, is not among the sources). Unpacking a list of the wrong
  length raises \<open>ValueError\<close>.
\<close>

definition get_version :: "string \<Rightarrow> error + string" where
  "get_version raw_version =
     (case split_on (CHR 0x0A) raw_version of
        [] \<Rightarrow> Inl ValueError
      | version_line # _ \<Rightarrow>
          (case split_on CHR '' '' version_line of
             [label, version] \<Rightarrow> Inr version
           | _ \<Rightarrow> Inl ValueError))"

section \<open>Notions used to state the properties\<close>

subsection \<open>The shape of a check id\<close>

text \<open>The repeated group \<open>(?:-\d+)\<close> of \<open>check_id_pattern\<close>.\<close>

definition group_re :: regex where
  "group_re = Seq (Lit CHR ''-'') (Plus Digit)"

text \<open>
  A direct reading of the pattern, to compare with the matcher: \<open>groups_end r\<close> is the
  length of the longest prefix of \<open>r\<close> made of groups \<open>-\<close> digits, if there is one, and
  \<open>leading_token s\<close> is the longest word run of \<open>s\<close> followed by these groups.
\<close>

fun groups_end :: "string \<Rightarrow> nat option" where
  "groups_end [] = None"
| "groups_end (c # cs) =
     (let m = length (takeWhile is_digit cs) in
      if c = CHR ''-'' \<and> 0 < m
      then Some (Suc m + (case groups_end (drop m cs) of None \<Rightarrow> 0 | Some e \<Rightarrow> e))
      else None)"

definition leading_token :: "string \<Rightarrow> string option" where
  "leading_token s =
     (let n = length (takeWhile is_word s) in
      if n = 0 then None
      else case groups_end (drop n s) of None \<Rightarrow> None | Some e \<Rightarrow> Some (take (n + e) s))"

text \<open>
  The tokens the specification describes: a non-empty run \<open>w\<close> of word characters, then
  one or more groups, each a \<open>-\<close> and a non-empty run of digits.
\<close>

definition token :: "string \<Rightarrow> string list \<Rightarrow> string" where
  "token w gs = w @ concat (map (\<lambda>g. CHR ''-'' # g) gs)"

definition digit_runs :: "string list \<Rightarrow> bool" where
  "digit_runs gs = (gs \<noteq> [] \<and> list_all (\<lambda>g. g \<noteq> [] \<and> list_all is_digit g) gs)"

definition token_parts :: "string \<Rightarrow> string list \<Rightarrow> bool" where
  "token_parts w gs = (w \<noteq> [] \<and> list_all is_word w \<and> digit_runs gs)"

subsection \<open>The shape of a report\<close>

text \<open>
  Reading a report as the interface describes it: the file entries under \<open>Results\<close>, the
  findings of a file entry under \<open>Misconfigurations\<close> (none when the key is missing), and
  the fields of a finding.
\<close>

definition field :: "json \<Rightarrow> string \<Rightarrow> json" where
  "field v k = (case v of JObj d \<Rightarrow> (case map_of d k of Some x \<Rightarrow> x | None \<Rightarrow> JNull) | _ \<Rightarrow> JNull)"

definition has_key :: "json \<Rightarrow> string \<Rightarrow> bool" where
  "has_key v k = (case v of JObj d \<Rightarrow> map_of d k \<noteq> None | _ \<Rightarrow> False)"

definition is_dict :: "json \<Rightarrow> bool" where
  "is_dict v = (case v of JObj _ \<Rightarrow> True | _ \<Rightarrow> False)"

definition is_list :: "json \<Rightarrow> bool" where
  "is_list v = (case v of JArr _ \<Rightarrow> True | _ \<Rightarrow> False)"

definition is_str :: "json \<Rightarrow> bool" where
  "is_str v = (case v of JStr _ \<Rightarrow> True | _ \<Rightarrow> False)"

definition file_entries :: "json \<Rightarrow> json list" where
  "file_entries results = (case field results ''Results'' of JArr rs \<Rightarrow> rs | _ \<Rightarrow> [])"

definition findings_of :: "json \<Rightarrow> json list" where
  "findings_of result = (case field result ''Misconfigurations'' of JArr ms \<Rightarrow> ms | _ \<Rightarrow> [])"

definition all_findings :: "json \<Rightarrow> json list" where
  "all_findings results = concat (map findings_of (file_entries results))"

definition finding_keys :: "string list" where
  "finding_keys = [''ID'', ''Title'', ''Status'', ''Severity'', ''Description'', ''Message'']"

text \<open>
  A well-formed report: a dict whose \<open>Results\<close> is a list of dicts; \<open>Misconfigurations\<close>,
  where present, is a list of findings that have all six keys (with any values, the id a
  hashable one); and an entry with at least one finding has a string \<open>Target\<close>.
\<close>

definition wf_finding :: "json \<Rightarrow> bool" where
  "wf_finding m = (list_all (has_key m) finding_keys \<and> hashable (field m ''ID''))"

definition wf_file :: "json \<Rightarrow> bool" where
  "wf_file f =
     (is_dict f \<and>
      (has_key f ''Misconfigurations'' \<longrightarrow> is_list (field f ''Misconfigurations'')) \<and>
      list_all wf_finding (findings_of f) \<and>
      (findings_of f \<noteq> [] \<longrightarrow> is_str (field f ''Target'')))"

definition wf_results :: "json \<Rightarrow> bool" where
  "wf_results results =
     (is_dict results \<and> is_list (field results ''Results'') \<and>
      list_all wf_file (file_entries results))"

text \<open>What a returning call implies of each file entry.\<close>

definition ok_file :: "json \<Rightarrow> bool" where
  "ok_file f = (is_dict f \<and> list_all wf_finding (findings_of f)
                \<and> (findings_of f \<noteq> [] \<longrightarrow> is_str (field f ''Target'')))"

text \<open>The record of one finding, field by field.\<close>

definition target_stem :: "json \<Rightarrow> string" where
  "target_stem result = (case field result ''Target'' of JStr t \<Rightarrow> stem t | _ \<Rightarrow> [])"

definition path_of :: "json \<Rightarrow> string" where
  "path_of cid = (case fst (get_checked_path cid []) of Inr p \<Rightarrow> p | Inl _ \<Rightarrow> [])"

definition normalized :: "json \<Rightarrow> json \<Rightarrow> CheckResult" where
  "normalized result misconfig =
     \<lparr> check_id = extract_check_id (target_stem result),
       obj_name = target_stem result,
       scanner_check_id = field misconfig ''ID'',
       scanner_check_name = field misconfig ''Title'',
       checked_path = path_of (field misconfig ''ID''),
       severity = field misconfig ''Severity'',
       got = (if field misconfig ''Status'' = JStr ''FAIL'' then Alert else Pass),
       details = field misconfig ''Description'',
       extra = field misconfig ''Message'' \<rparr>"

definition records_of :: "json \<Rightarrow> CheckResult list" where
  "records_of result = map (normalized result) (findings_of result)"

subsection \<open>Lines and tokens of the version text\<close>

text \<open>The first line: the text before the first newline.\<close>

definition first_line :: "string \<Rightarrow> string" where
  "first_line raw = takeWhile (\<lambda>c. c \<noteq> CHR 0x0A) raw"

text \<open>
  Whitespace-delimited tokens, in the specification's words: the maximal runs of
  characters that are not whitespace (space, tab, newline, vertical tab, form feed,
  carriage return).
\<close>

definition is_space :: "char \<Rightarrow> bool" where
  "is_space c = (c \<in> set [CHR '' '', CHR 0x09, CHR 0x0A, CHR 0x0B, CHR 0x0C, CHR 0x0D])"

fun ws_tokens_from :: "string \<Rightarrow> string \<Rightarrow> string list" where
  "ws_tokens_from cur [] = (if cur = [] then [] else [cur])"
| "ws_tokens_from cur (c # cs) =
     (if is_space c then (if cur = [] then [] else [cur]) @ ws_tokens_from [] cs
      else ws_tokens_from (cur @ [c]) cs)"

definition ws_tokens :: "string \<Rightarrow> string list" where
  "ws_tokens s = ws_tokens_from [] s"

subsection \<open>Example inputs\<close>

definition finding_fail :: json where
  "finding_fail =
     JObj [(''ID'', JStr ''KSV017''), (''Title'', JStr ''t''), (''Status'', JStr ''FAIL''),
           (''Severity'', JStr ''HIGH''), (''Description'', JStr ''d''), (''Message'', JStr ''m'')]"

definition finding_empty :: json where
  "finding_empty =
     JObj [(''ID'', JStr ''KSV012''), (''Title'', JStr ''u''), (''Status'', JStr ''PASS''),
           (''Severity'', JStr []), (''Description'', JStr []), (''Message'', JStr [])]"

definition finding_warn :: json where
  "finding_warn =
     JObj [(''ID'', JStr ''KSV017''), (''Title'', JStr ''v''), (''Status'', JStr ''WARN''),
           (''Severity'', JStr ''LOW''), (''Description'', JNull), (''Message'', JStr ''n'')]"

definition finding_no_severity :: json where
  "finding_no_severity =
     JObj [(''ID'', JStr ''KSV017''), (''Title'', JStr ''t''), (''Status'', JStr ''FAIL''),
           (''Description'', JStr ''d''), (''Message'', JStr ''m'')]"

definition file_clean :: json where
  "file_clean = JObj [(''Target'', JStr ''clean.yaml'')]"

definition file_no_target :: json where
  "file_no_target = JObj [(''Misconfigurations'', JArr [finding_fail])]"

definition report :: json where
  "report = JObj [(''Results'', JArr
     [JObj [(''Target'', JStr ''POD-001-test.yaml''),
            (''Misconfigurations'', JArr [finding_fail, finding_empty])],
      file_clean,
      JObj [(''Target'', JStr ''KSV017-test.yaml''), (''Misconfigurations'', JArr [finding_warn])]])]"

definition report_other :: json where
  "report_other = JObj [(''Results'', JArr
     [JObj [(''Target'', JStr ''other/RBAC-002.yml''), (''Misconfigurations'', JArr [finding_warn])]])]"

definition report_no_severity :: json where
  "report_no_severity = JObj [(''Results'', JArr
     [JObj [(''Target'', JStr ''KSV017-test.yaml''),
            (''Misconfigurations'', JArr [finding_no_severity])]])]"

definition report_no_target :: json where
  "report_no_target = JObj [(''Results'', JArr [file_clean, file_no_target])]"

definition mapping_example :: mapping where
  "mapping_example = [(''X1'', Workload, Multiple [''a'', ''b'']), (''X2'', Network, Single ''c'')]"

section \<open>Facts about the table\<close>

lemma lookup_paths_str:
  "lookup_paths mapping (JStr s) =
     Inr (case map_of mapping s of None \<Rightarrow> Absent | Some (c, ps) \<Rightarrow> ps)"
  by (simp add: lookup_paths_def split: option.split)

text \<open>
  The keys of the table are distinct: looking a key up in the list, where the first entry
  counts, is looking it up in the dict.
\<close>

lemma CHECK_MAPPING_distinct: "distinct (map fst CHECK_MAPPING)"
  by (simp add: CHECK_MAPPING_def)

lemma CHECK_MAPPING_KSV002:
  "map_of CHECK_MAPPING ''KSV002'' =
     Some (Workload, Multiple [''.metadata.annotations.container.apparmor.security.beta.kubernetes.io.metadata.annotations[container.apparmor.security.beta.kubernetes.io]''])"
  by (simp add: CHECK_MAPPING_def)

lemma CHECK_MAPPING_KSV012:
  "map_of CHECK_MAPPING ''KSV012'' =
     Some (Workload, Multiple [''.spec.securityContext.runAsNonRoot'',
                               ''.spec.containers[].securityContext.runAsNonRoot''])"
  by (simp add: CHECK_MAPPING_def)

lemma CHECK_MAPPING_KSV017:
  "map_of CHECK_MAPPING ''KSV017'' =
     Some (Workload, Multiple [''.spec.containers[].securityContext.privileged''])"
  by (simp add: CHECK_MAPPING_def)

lemma CHECK_MAPPING_KSV029: "map_of CHECK_MAPPING ''KSV029'' = None"
  by (simp add: CHECK_MAPPING_def)

section \<open>Splitting and joining\<close>

lemma split_on_not_Nil: "split_on sep s \<noteq> []"
  by (induction s) (auto split: list.splits)

lemma split_on_hd: "\<exists>ps. split_on sep s = takeWhile (\<lambda>c. c \<noteq> sep) s # ps"
  by (induction s) (auto split: list.splits)

lemma split_on_one: "split_on sep s = [a] \<longleftrightarrow> s = a \<and> sep \<notin> set a"
proof (induction s arbitrary: a)
  case Nil
  show ?case by auto
next
  case (Cons c cs)
  show ?case
  proof (cases "c = sep")
    case True
    then show ?thesis using split_on_not_Nil [of sep cs] by auto
  next
    case False
    obtain p ps where p: "split_on sep cs = p # ps"
      using split_on_not_Nil [of sep cs] by (cases "split_on sep cs") auto
    show ?thesis using False p Cons.IH [of p] Cons.IH [of cs] by auto
  qed
qed

lemma split_on_two:
  "split_on sep s = [a, b] \<longleftrightarrow> s = a @ sep # b \<and> sep \<notin> set a \<and> sep \<notin> set b"
proof (induction s arbitrary: a)
  case Nil
  show ?case by auto
next
  case (Cons c cs)
  show ?case
  proof (cases "c = sep")
    case True
    then show ?thesis using split_on_one [of sep cs b] by (cases a) auto
  next
    case False
    obtain p ps where p: "split_on sep cs = p # ps"
      using split_on_not_Nil [of sep cs] by (cases "split_on sep cs") auto
    show ?thesis using False p Cons.IH [of p] Cons.IH [of "tl a"] by (cases a) auto
  qed
qed

lemma length_split_on: "length (split_on sep s) = Suc (length (filter (\<lambda>c. c = sep) s))"
  by (induction s) (auto split: list.splits simp: split_on_not_Nil)

lemma split_on_no_sep: "sep \<notin> set p \<Longrightarrow> split_on sep p = [p]"
  by (simp add: split_on_one)

lemma split_on_append_sep:
  "sep \<notin> set p \<Longrightarrow> split_on sep (p @ sep # rest) = p # split_on sep rest"
  by (induction p) (auto split: list.splits)

lemma split_on_join:
  "ps \<noteq> [] \<Longrightarrow> \<forall>p \<in> set ps. sep \<notin> set p \<Longrightarrow> split_on sep (join [sep] ps) = ps"
proof (induction "[sep]" ps rule: join.induct)
  case 1
  then show ?case by simp
next
  case (2 x)
  then show ?case by (simp add: split_on_no_sep)
next
  case (3 x y ys)
  then show ?case by (simp add: split_on_append_sep)
qed

section \<open>The identifier extractor\<close>

subsection \<open>The matcher on the parts of the pattern\<close>

lemma rev_upt_from_1: "0 < n \<Longrightarrow> rev [Suc 0..<Suc n] = n # rev [Suc 0..<n]"
  by (cases n) simp_all

text \<open>A greedy \<open>+\<close> on a one-character class offers the run lengths, longest first.\<close>

lemma rmatch_plus_class:
  assumes a: "\<And>i s. rmatch a (i, s) =
                (case s of [] \<Rightarrow> [] | c # cs \<Rightarrow> if p c then [(Suc i, cs)] else [])"
  shows "rmatch (Plus a) (i, s) =
           map (\<lambda>k. (i + k, drop k s)) (rev [1..<Suc (length (takeWhile p s))])"
proof (induction s arbitrary: i)
  case Nil
  show ?case by (simp add: a rmatch.simps(6))
next
  case (Cons c cs)
  show ?case
  proof (cases "p c")
    case False
    then show ?thesis by (simp add: a rmatch.simps(6))
  next
    case True
    let ?n = "length (takeWhile p cs)"
    have "rmatch (Plus a) (i, c # cs) = rmatch (Plus a) (Suc i, cs) @ [(Suc i, cs)]"
      using True by (simp add: a rmatch.simps(6))
    also have "\<dots> = map (\<lambda>k. (Suc i + k, drop k cs)) (rev [1..<Suc ?n]) @ [(Suc i, cs)]"
      by (simp only: Cons.IH)
    also have "\<dots> = map (\<lambda>k. (i + k, drop k (c # cs))) (rev (map Suc [1..<Suc ?n])) @ [(Suc i, cs)]"
      by (simp add: rev_map comp_def del: upt_Suc)
    also have "\<dots> = map (\<lambda>k. (i + k, drop k (c # cs))) (rev (1 # map Suc [1..<Suc ?n]))"
      by simp
    also have "1 # map Suc [1..<Suc ?n] = [1..<Suc (Suc ?n)]"
      by (simp add: map_Suc_upt upt_conv_Cons del: upt_Suc)
    finally show ?thesis using True by simp
  qed
qed

lemma rmatch_plus_word:
  "rmatch (Plus Word) (i, s) =
     map (\<lambda>k. (i + k, drop k s)) (rev [1..<Suc (length (takeWhile is_word s))])"
  by (rule rmatch_plus_class) simp

lemma rmatch_plus_digit:
  "rmatch (Plus Digit) (i, s) =
     map (\<lambda>k. (i + k, drop k s)) (rev [1..<Suc (length (takeWhile is_digit s))])"
  by (rule rmatch_plus_class) simp

lemma rmatch_group:
  "rmatch group_re (j, r) =
     (case r of [] \<Rightarrow> []
      | c # cs \<Rightarrow> if c = CHR ''-''
                 then map (\<lambda>k. (Suc j + k, drop k cs)) (rev [1..<Suc (length (takeWhile is_digit cs))])
                 else [])"
  by (simp add: group_re_def rmatch_plus_digit split: list.split)

lemma rmatch_group_Nil:
  "groups_end r = None \<Longrightarrow> rmatch group_re (j, r) = []"
  by (cases r) (auto simp: rmatch_group Let_def split: if_splits)

lemma rmatch_group_Cons:
  assumes "0 < length (takeWhile is_digit cs)"
  shows "\<exists>rest. rmatch group_re (j, CHR ''-'' # cs) =
           (Suc j + length (takeWhile is_digit cs), drop (length (takeWhile is_digit cs)) cs) # rest"
  using assms by (simp add: rmatch_group rev_upt_from_1 del: upt_Suc)

text \<open>The first way in which the repeated group matches is the one \<open>groups_end\<close> computes.\<close>

lemma rmatch_plus_group:
  "(groups_end r = None \<longrightarrow> rmatch (Plus group_re) (j, r) = []) \<and>
   (\<forall>e. groups_end r = Some e \<longrightarrow>
      (\<exists>rest. rmatch (Plus group_re) (j, r) = (j + e, drop e r) # rest))"
proof (induction r arbitrary: j rule: groups_end.induct)
  case 1
  show ?case by (simp add: rmatch_group rmatch.simps(6))
next
  case (2 c cs)
  let ?m = "length (takeWhile is_digit cs)"
  show ?case
  proof (cases "c = CHR ''-'' \<and> 0 < ?m")
    case False
    then have "groups_end (c # cs) = None" by (auto simp: Let_def)
    then show ?thesis using rmatch_group_Nil [of "c # cs" j] by (simp add: rmatch.simps(6))
  next
    case True
    then obtain rest where g: "rmatch group_re (j, c # cs) = (Suc j + ?m, drop ?m cs) # rest"
      using rmatch_group_Cons [of cs j] by auto
    have IH: "(groups_end (drop ?m cs) = None \<longrightarrow>
                 rmatch (Plus group_re) (Suc j + ?m, drop ?m cs) = []) \<and>
      (\<forall>e. groups_end (drop ?m cs) = Some e \<longrightarrow>
        (\<exists>rest. rmatch (Plus group_re) (Suc j + ?m, drop ?m cs) =
                  (Suc j + ?m + e, drop e (drop ?m cs)) # rest))"
      using "2.IH" [of ?m "Suc j + ?m"] True by simp
    have unfold: "rmatch (Plus group_re) (j, c # cs) =
        (rmatch (Plus group_re) (Suc j + ?m, drop ?m cs) @ [(Suc j + ?m, drop ?m cs)]) @
        concat (map (\<lambda>(j', r'). (if length r' < length (c # cs)
                                   then rmatch (Plus group_re) (j', r') else []) @ [(j', r')]) rest)"
    proof -
      have "length cs - ?m < Suc (length cs)" by arith
      then show ?thesis by (simp add: g rmatch.simps(6) [of group_re j "c # cs"])
    qed
    show ?thesis
    proof (cases "groups_end (drop ?m cs)")
      case None
      then have "groups_end (c # cs) = Some (Suc ?m)" using True by (simp add: Let_def)
      moreover have "rmatch (Plus group_re) (Suc j + ?m, drop ?m cs) = []" using IH None by simp
      ultimately show ?thesis using unfold by simp
    next
      case (Some e)
      then have ge: "groups_end (c # cs) = Some (Suc ?m + e)" using True by (simp add: Let_def)
      obtain rest' where "rmatch (Plus group_re) (Suc j + ?m, drop ?m cs) =
          (Suc j + ?m + e, drop e (drop ?m cs)) # rest'"
        using IH Some by auto
      then show ?thesis using unfold ge by (simp add: add.commute)
    qed
  qed
qed

lemma search_from_Bol: "0 < i \<Longrightarrow> search_from (Seq Bol r) i s = None"
  by (induction s arbitrary: i) simp_all

lemma not_word_minus: "\<not> is_word CHR ''-''"
  by (simp add: is_word_def)

lemma not_digit_minus: "\<not> is_digit CHR ''-''"
  by (simp add: is_digit_def)

lemma groups_end_word: "is_word c \<Longrightarrow> groups_end (c # cs) = None"
  using not_word_minus by (auto simp: Let_def)

lemma takeWhile_index: "k < length (takeWhile p s) \<Longrightarrow> p (s ! k) \<and> k < length s"
  by (metis length_takeWhile_le less_le_trans nth_mem set_takeWhileD takeWhile_nth)

text \<open>Inside the word run the next character is no \<open>-\<close>: a shorter run leads nowhere.\<close>

lemma plus_group_inside_word:
  assumes "k < length (takeWhile is_word s)"
  shows "rmatch (Plus group_re) (j, drop k s) = []"
proof -
  have "is_word (s ! k)" and "k < length s" using takeWhile_index [OF assms] by auto
  then have "groups_end (drop k s) = None"
    by (simp add: Cons_nth_drop_Suc [symmetric] groups_end_word del: groups_end.simps)
  then show ?thesis using rmatch_plus_group [of "drop k s" j] by simp
qed

lemma rmatch_check_id_pattern:
  "rmatch check_id_pattern (0, s) =
     (let n = length (takeWhile is_word s) in
      if n = 0 then [] else rmatch (Plus group_re) (n, drop n s))"
proof -
  let ?n = "length (takeWhile is_word s)"
  have 1: "rmatch check_id_pattern (0, s) =
      concat (map (\<lambda>k. rmatch (Plus group_re) (k, drop k s)) (rev [Suc 0..<Suc ?n]))"
    by (simp add: check_id_pattern_def group_re_def [symmetric] rmatch_plus_word comp_def
             del: upt_Suc)
  show ?thesis
  proof (cases "?n = 0")
    case True
    then show ?thesis using 1 by simp
  next
    case False
    have "\<forall>k \<in> set (rev [Suc 0..<?n]). rmatch (Plus group_re) (k, drop k s) = []"
      using plus_group_inside_word by simp
    then have "concat (map (\<lambda>k. rmatch (Plus group_re) (k, drop k s)) (rev [Suc 0..<?n])) = []"
      by simp
    then show ?thesis using 1 False by (simp add: rev_upt_from_1 Let_def del: upt_Suc)
  qed
qed

text \<open>The search with the backtracking matcher returns the leading token.\<close>

lemma extract_check_id_leading_token: "extract_check_id s = leading_token s"
proof -
  let ?n = "length (takeWhile is_word s)"
  have tail: "(case s of [] \<Rightarrow> None | c # cs \<Rightarrow> search_from check_id_pattern (Suc 0) cs) = None"
    by (simp add: check_id_pattern_def search_from_Bol split: list.split)
  have sf: "search_from check_id_pattern 0 s =
      (case rmatch check_id_pattern (0, s) of (j, _) # _ \<Rightarrow> Some (0, j) | [] \<Rightarrow> None)"
    using tail by (cases s) (simp_all split: list.split)
  show ?thesis
  proof (cases "?n = 0")
    case True
    then show ?thesis
      by (simp add: extract_check_id_def re_search_def sf rmatch_check_id_pattern leading_token_def)
  next
    case False
    show ?thesis
    proof (cases "groups_end (drop ?n s)")
      case None
      then have "rmatch (Plus group_re) (?n, drop ?n s) = []"
        using rmatch_plus_group [of "drop ?n s" ?n] by simp
      then show ?thesis using False None
        by (simp add: extract_check_id_def re_search_def sf rmatch_check_id_pattern leading_token_def)
    next
      case (Some e)
      then obtain rest where
        "rmatch (Plus group_re) (?n, drop ?n s) = (?n + e, drop e (drop ?n s)) # rest"
        using rmatch_plus_group [of "drop ?n s" ?n] by auto
      then show ?thesis using False Some
        by (simp add: extract_check_id_def re_search_def sf rmatch_check_id_pattern
                      leading_token_def Let_def)
    qed
  qed
qed

subsection \<open>The leading token has the shape of the pattern, and is the longest\<close>

lemma takeWhile_take: "takeWhile p xs = take (length (takeWhile p xs)) xs"
  by (induction xs) simp_all

lemma list_all_takeWhile: "list_all p (takeWhile p xs)"
  by (induction xs) simp_all

lemma takeWhile_all_append: "list_all p xs \<Longrightarrow> takeWhile p (xs @ ys) = xs @ takeWhile p ys"
  by (induction xs) simp_all

lemma groups_end_sound:
  "groups_end r = Some e \<Longrightarrow>
     \<exists>gs. digit_runs gs \<and> take e r = concat (map (\<lambda>g. CHR ''-'' # g) gs)"
proof (induction r arbitrary: e rule: groups_end.induct)
  case 1
  then show ?case by simp
next
  case (2 c cs)
  let ?m = "length (takeWhile is_digit cs)"
  let ?g = "takeWhile is_digit cs"
  from "2.prems" have c: "c = CHR ''-''" and m: "0 < ?m"
    by (auto simp: Let_def split: if_splits)
  have g: "?g \<noteq> [] \<and> list_all is_digit ?g" using m by (simp add: list_all_takeWhile)
  have tk: "take ?m cs = ?g" using takeWhile_take [of is_digit cs] by simp
  show ?case
  proof (cases "groups_end (drop ?m cs)")
    case None
    then have "e = Suc ?m" using "2.prems" c m by (simp add: Let_def)
    then have "take e (c # cs) = concat (map (\<lambda>g. CHR ''-'' # g) [?g])" using c tk by simp
    moreover have "digit_runs [?g]" using g by (simp add: digit_runs_def)
    ultimately show ?thesis by blast
  next
    case (Some e')
    then have e: "e = Suc ?m + e'" using "2.prems" c m by (simp add: Let_def)
    obtain gs where gs: "digit_runs gs"
      "take e' (drop ?m cs) = concat (map (\<lambda>g. CHR ''-'' # g) gs)"
      using "2.IH" [of ?m e'] c m Some by auto
    have "take e (c # cs) = c # take ?m cs @ take e' (drop ?m cs)"
      using e by (simp add: take_add)
    then have "take e (c # cs) = concat (map (\<lambda>g. CHR ''-'' # g) (?g # gs))"
      using c tk gs by simp
    moreover have "digit_runs (?g # gs)" using g gs by (simp add: digit_runs_def)
    ultimately show ?thesis by blast
  qed
qed

lemma groups_end_complete:
  "digit_runs gs \<Longrightarrow>
     \<exists>e. groups_end (concat (map (\<lambda>g. CHR ''-'' # g) gs) @ rest) = Some e \<and>
         length (concat (map (\<lambda>g. CHR ''-'' # g) gs)) \<le> e"
proof (induction gs)
  case Nil
  then show ?case by (simp add: digit_runs_def)
next
  case (Cons g gs)
  let ?X = "concat (map (\<lambda>g. CHR ''-'' # g) gs) @ rest"
  let ?m = "length (takeWhile is_digit (g @ ?X))"
  from Cons.prems have g: "g \<noteq> []" "list_all is_digit g" by (simp_all add: digit_runs_def)
  have tw: "takeWhile is_digit (g @ ?X) = g @ takeWhile is_digit ?X"
    using g by (simp add: takeWhile_all_append)
  have unfold: "groups_end (concat (map (\<lambda>g. CHR ''-'' # g) (g # gs)) @ rest) =
      Some (Suc ?m + (case groups_end (drop ?m (g @ ?X)) of None \<Rightarrow> 0 | Some e \<Rightarrow> e))"
    using g tw by (simp add: Let_def)
  show ?case
  proof (cases gs)
    case Nil
    have "length g \<le> ?m" using tw by simp
    then show ?thesis using unfold Nil by simp
  next
    case (Cons g' gs')
    then have "digit_runs gs" using Cons.prems by (simp add: digit_runs_def)
    then obtain e where e: "groups_end ?X = Some e"
      "length (concat (map (\<lambda>g. CHR ''-'' # g) gs)) \<le> e"
      using Cons.IH by blast
    have "takeWhile is_digit ?X = []" using Cons not_digit_minus by simp
    then have m: "?m = length g" using tw by simp
    then have "drop ?m (g @ ?X) = ?X" by simp
    then show ?thesis using unfold e m by simp
  qed
qed

lemma leading_token_complete:
  assumes "token_parts w gs"
  shows "\<exists>u. leading_token (token w gs @ rest) = Some (token w gs @ u)"
proof -
  let ?G = "concat (map (\<lambda>g. CHR ''-'' # g) gs)"
  let ?s = "token w gs @ rest"
  from assms have w: "w \<noteq> []" "list_all is_word w" and gs: "digit_runs gs"
    by (simp_all add: token_parts_def)
  obtain g gs' where "gs = g # gs'" using gs by (cases gs) (simp_all add: digit_runs_def)
  then have "takeWhile is_word (?G @ rest) = []" using not_word_minus by simp
  then have n: "takeWhile is_word ?s = w"
    using w by (simp add: token_def takeWhile_all_append)
  then have d: "drop (length (takeWhile is_word ?s)) ?s = ?G @ rest"
    by (simp add: token_def)
  obtain e where e: "groups_end (?G @ rest) = Some e" "length ?G \<le> e"
    using groups_end_complete [OF gs] by blast
  have lt: "leading_token ?s = Some (take (length w + e) ?s)"
    using w n d e by (simp add: leading_token_def Let_def)
  have "take (length w + e) ?s = token w gs @ take (e - length ?G) rest"
    using e by (simp add: token_def)
  then show ?thesis using lt by simp
qed

lemma leading_token_sound:
  assumes "leading_token s = Some t"
  shows "\<exists>w gs rest. token_parts w gs \<and> t = token w gs \<and> s = t @ rest"
proof -
  let ?n = "length (takeWhile is_word s)"
  from assms obtain e where n: "0 < ?n" and e: "groups_end (drop ?n s) = Some e"
    and t: "t = take (?n + e) s"
    by (auto simp: leading_token_def Let_def split: if_splits option.splits)
  obtain gs where gs: "digit_runs gs"
    "take e (drop ?n s) = concat (map (\<lambda>g. CHR ''-'' # g) gs)"
    using groups_end_sound [OF e] by blast
  have "take ?n s = takeWhile is_word s" using takeWhile_take [of is_word s] by simp
  then have "t = token (takeWhile is_word s) gs"
    using t gs by (simp add: take_add token_def)
  moreover have "token_parts (takeWhile is_word s) gs"
    using n gs by (simp add: token_parts_def list_all_takeWhile)
  moreover have "s = t @ drop (?n + e) s" using t by simp
  ultimately show ?thesis by blast
qed

text \<open>
  C1, as the code has it: the extractor returns a prefix of the object name made of a
  non-empty run of word characters and one or more groups of \<open>-\<close> and digits; every prefix
  of that shape is a prefix of the returned one, so the result is the longest, and it is
  absent exactly when the name has no such prefix. \<open>deployment\<close> has none, and neither has
  \<open>KSV017-test\<close>, where no digit follows the \<open>-\<close>; \<open>POD-001-test\<close> yields \<open>POD-001\<close>.
\<close>

theorem extract_check_id_token:
  "(extract_check_id s = Some t \<longrightarrow>
      (\<exists>w gs rest. token_parts w gs \<and> t = token w gs \<and> s = t @ rest))
   \<and> (token_parts w gs \<longrightarrow>
      (\<exists>u. extract_check_id (token w gs @ rest) = Some (token w gs @ u)))
   \<and> extract_check_id ''KSV017-test'' = None
   \<and> extract_check_id ''deployment'' = None
   \<and> extract_check_id ''POD-001-test'' = Some ''POD-001''"
proof -
  have ex: "leading_token ''KSV017-test'' = None" "leading_token ''deployment'' = None"
    "leading_token ''POD-001-test'' = Some ''POD-001''"
    by (simp_all add: leading_token_def is_word_def is_digit_def Let_def)
  show ?thesis
    using leading_token_sound [of s t] leading_token_complete [of w gs rest] ex
    by (simp add: extract_check_id_leading_token)
qed

theorem extract_check_id_token_witness:
  "token_parts ''POD'' [''001'']
   \<and> extract_check_id ''POD-001-test'' = Some ''POD-001''
   \<and> (\<exists>w gs rest. token_parts w gs \<and> ''POD-001'' = token w gs \<and> ''POD-001-test'' = ''POD-001'' @ rest)
   \<and> (\<exists>u. extract_check_id (token ''POD'' [''001''] @ ''-test'') = Some (token ''POD'' [''001''] @ u))"
proof -
  have tp: "token_parts ''POD'' [''001'']"
    by (simp add: token_parts_def digit_runs_def is_word_def is_digit_def)
  show ?thesis
    using extract_check_id_token [of "''POD-001-test''" "''POD-001''" "''POD''" "[''001'']" "''-test''"] tp
    by simp
qed

text \<open>
  The object name \<open>KSV017-test\<close> of the specification's example does not yield \<open>KSV017\<close>:
  the search finds no match.
\<close>

theorem extract_check_id_KSV017_test:
  "extract_check_id ''KSV017-test'' = None
   \<and> extract_check_id ''KSV017-test'' \<noteq> Some ''KSV017''"
  by (simp add: extract_check_id_leading_token leading_token_def is_word_def is_digit_def Let_def)

section \<open>The path resolver\<close>

text \<open>
  C9: for the rule id \<open>KSV002\<close> the resolver returns one string without the delimiter
  \<open>|\<close>: the path list of the entry has exactly one element, the two annotation paths
  written as adjacent literals and so fused, and they come out concatenated.
\<close>

theorem get_checked_path_KSV002:
  "get_checked_path (JStr ''KSV002'') lg =
     (Inr ''.metadata.annotations.container.apparmor.security.beta.kubernetes.io.metadata.annotations[container.apparmor.security.beta.kubernetes.io]'', lg)
   \<and> CHR ''|'' \<notin> set ''.metadata.annotations.container.apparmor.security.beta.kubernetes.io.metadata.annotations[container.apparmor.security.beta.kubernetes.io]''
   \<and> (\<exists>c p. map_of CHECK_MAPPING ''KSV002'' = Some (c, Multiple [p]))"
  by (simp add: get_checked_path_def get_checked_path_in_def lookup_paths_str CHECK_MAPPING_KSV002)

text \<open>
  C5: for a rule id that is not a key of the table, the resolver returns the empty string
  and adds exactly one warning to the log; and for no string does the lookup raise.
\<close>

theorem get_checked_path_absent:
  "(map_of CHECK_MAPPING s = None \<longrightarrow>
      get_checked_path (JStr s) lg =
        (Inr [], lg @ [Warning (''trivy check '' @ [CHR 0x27] @ s @ [CHR 0x27] @
                                '' not found in the mapping'')]))
   \<and> (\<exists>p lg'. get_checked_path (JStr s) lg = (Inr p, lg'))"
  by (auto simp add: get_checked_path_def get_checked_path_in_def lookup_paths_str
           split: option.split paths.split)

theorem get_checked_path_absent_witness:
  "map_of CHECK_MAPPING ''KSV029'' = None
   \<and> get_checked_path (JStr ''KSV029'') [] =
        (Inr [], [Warning (''trivy check '' @ [CHR 0x27] @ ''KSV029'' @ [CHR 0x27] @
                           '' not found in the mapping'')])"
  using get_checked_path_absent [of "''KSV029''" "[]"] CHECK_MAPPING_KSV029 by simp

text \<open>
  C6: for a rule id whose entry holds a list of paths, the resolver returns the paths
  joined with \<open>|\<close> in the order of the list, from which the list can be read back; paths
  \<open>a\<close>, \<open>b\<close> give \<open>a|b\<close>. For an entry that holds a single string, it returns that string.
  Neither adds to the log.
\<close>

theorem get_checked_path_joined:
  "(map_of mapping s = Some (c, Multiple ps) \<longrightarrow>
      get_checked_path_in mapping (JStr s) lg = (Inr (join ''|'' ps), lg))
   \<and> (map_of mapping s = Some (c, Single p) \<longrightarrow>
      get_checked_path_in mapping (JStr s) lg = (Inr p, lg))
   \<and> (map_of CHECK_MAPPING s = Some (c, Multiple ps) \<longrightarrow>
      get_checked_path (JStr s) lg = (Inr (join ''|'' ps), lg))
   \<and> join ''|'' [''a'', ''b''] = ''a|b''
   \<and> (ps \<noteq> [] \<and> (\<forall>p \<in> set ps. CHR ''|'' \<notin> set p) \<longrightarrow>
        split_on CHR ''|'' (join ''|'' ps) = ps)"
  using split_on_join [of ps "CHR ''|''"]
  by (simp add: get_checked_path_def get_checked_path_in_def lookup_paths_str)

theorem get_checked_path_joined_witness:
  "map_of mapping_example ''X1'' = Some (Workload, Multiple [''a'', ''b''])
   \<and> get_checked_path_in mapping_example (JStr ''X1'') [] = (Inr ''a|b'', [])
   \<and> map_of mapping_example ''X2'' = Some (Network, Single ''c'')
   \<and> get_checked_path_in mapping_example (JStr ''X2'') [] = (Inr ''c'', [])
   \<and> get_checked_path (JStr ''KSV012'') [] =
        (Inr ''.spec.securityContext.runAsNonRoot|.spec.containers[].securityContext.runAsNonRoot'', [])
   \<and> split_on CHR ''|'' (join ''|'' [''a'', ''b'']) = [''a'', ''b'']"
  using get_checked_path_joined [of mapping_example "''X1''" Workload "[''a'', ''b'']" "[]"]
        get_checked_path_joined [of mapping_example "''X2''" Network _ "[]" "''c''"]
        get_checked_path_joined [of _ "''KSV012''" Workload
           "[''.spec.securityContext.runAsNonRoot'',
             ''.spec.containers[].securityContext.runAsNonRoot'']" "[]"]
        CHECK_MAPPING_KSV012
  by (simp add: mapping_example_def)

section \<open>The result parser\<close>

subsection \<open>Sequencing\<close>

lemma bind_Inr:
  "bind m f lg = (Inr y, lg') \<longleftrightarrow> (\<exists>x lg1. m lg = (Inr x, lg1) \<and> f x lg1 = (Inr y, lg'))"
  by (auto simp: bind_def split: prod.splits sum.splits)

lemma lift_Inr: "lift r lg = (Inr x, lg') \<longleftrightarrow> r = Inr x \<and> lg' = lg"
  by (auto simp: lift_def)

lemma ret_Inr: "ret x lg = (Inr y, lg') \<longleftrightarrow> y = x \<and> lg' = lg"
  by (auto simp: ret_def)

lemma bind_lift_Inr: "r = Inr x \<Longrightarrow> bind (lift r) f lg = f x lg"
  by (simp add: bind_def lift_def)

lemma bind_lift_Inl: "r = Inl e \<Longrightarrow> bind (lift r) f lg = (Inl e, lg)"
  by (simp add: bind_def lift_def)

lemma bind_step: "m lg = (Inr x, lg1) \<Longrightarrow> bind m f lg = f x lg1"
  by (simp add: bind_def)

lemma bind_fail: "m lg = (Inl e, lg1) \<Longrightarrow> bind m f lg = (Inl e, lg1)"
  by (simp add: bind_def)

subsection \<open>One finding\<close>

lemma py_getitem_Inr: "py_getitem v k = Inr x \<longleftrightarrow> has_key v k \<and> field v k = x"
  by (cases v) (auto simp: has_key_def field_def split: option.splits)

lemma py_getitem_has_key: "has_key v k \<Longrightarrow> py_getitem v k = Inr (field v k)"
  by (simp add: py_getitem_Inr)

lemma is_str_has_key: "is_str (field v k) \<Longrightarrow> has_key v k"
  by (auto simp: is_str_def field_def has_key_def split: json.splits option.splits)

lemma Path_stem_Inr: "Path_stem v = Inr n \<longleftrightarrow> (\<exists>t. v = JStr t \<and> n = stem t)"
  by (cases v) auto

lemma get_checked_path_Inr:
  "get_checked_path cid lg = (Inr p, lg') \<Longrightarrow> hashable cid \<and> p = path_of cid"
  by (auto simp: get_checked_path_def get_checked_path_in_def path_of_def lookup_paths_def
           split: sum.splits paths.splits if_splits)

lemma get_checked_path_hashable:
  "hashable cid \<Longrightarrow> \<exists>lg'. get_checked_path cid lg = (Inr (path_of cid), lg')"
  by (auto simp: get_checked_path_def get_checked_path_in_def path_of_def lookup_paths_def
           split: sum.splits paths.splits if_splits json.splits option.splits)

lemma get_checked_path_KSV017:
  "get_checked_path (JStr ''KSV017'') lg =
     (Inr ''.spec.containers[].securityContext.privileged'', lg)"
  by (simp add: get_checked_path_def get_checked_path_in_def lookup_paths_def CHECK_MAPPING_KSV017)

lemma parse_misconfig_Inr:
  assumes "parse_misconfig result m lg = (Inr x, lg')"
  shows "x = normalized result m \<and> wf_finding m \<and> has_key result ''Target''
         \<and> is_str (field result ''Target'')"
  using assms
  by (auto simp: parse_misconfig_def bind_Inr lift_Inr ret_Inr py_getitem_Inr Path_stem_Inr
                 normalized_def target_stem_def wf_finding_def finding_keys_def is_str_def
           dest!: get_checked_path_Inr)

lemma parse_misconfig_wf:
  assumes "wf_finding m" "has_key result ''Target''" "is_str (field result ''Target'')"
  shows "\<exists>lg'. parse_misconfig result m lg = (Inr (normalized result m), lg')"
proof -
  obtain t where t: "field result ''Target'' = JStr t"
    using assms(3) by (auto simp: is_str_def split: json.splits)
  obtain lg' where p: "get_checked_path (field m ''ID'') lg = (Inr (path_of (field m ''ID'')), lg')"
    using assms(1) get_checked_path_hashable [of "field m ''ID''" lg] by (auto simp: wf_finding_def)
  have "parse_misconfig result m lg = (Inr (normalized result m), lg')"
    using assms(1,2) t p
    by (simp add: parse_misconfig_def wf_finding_def finding_keys_def py_getitem_has_key
                  bind_lift_Inr bind_step ret_def normalized_def target_stem_def)
  then show ?thesis by blast
qed

subsection \<open>The two loops\<close>

lemma misconfig_loop_wf:
  assumes "list_all wf_finding ms" "ms \<noteq> [] \<longrightarrow> is_str (field result ''Target'')"
  shows "\<exists>lg'. misconfig_loop result ms acc lg = (Inr (acc @ map (normalized result) ms), lg')"
  using assms
proof (induction ms arbitrary: acc lg)
  case Nil
  then show ?case by (simp add: ret_def)
next
  case (Cons m ms)
  then have t: "is_str (field result ''Target'')" by simp
  obtain lg1 where 1: "parse_misconfig result m lg = (Inr (normalized result m), lg1)"
    using parse_misconfig_wf [of m result lg] Cons.prems t is_str_has_key by auto
  obtain lg2 where "misconfig_loop result ms (acc @ [normalized result m]) lg1 =
      (Inr ((acc @ [normalized result m]) @ map (normalized result) ms), lg2)"
    using Cons.IH [of "acc @ [normalized result m]" lg1] Cons.prems t by auto
  then show ?case using 1 by (simp add: bind_step)
qed

lemma misconfig_loop_Inr:
  assumes "misconfig_loop result ms acc lg = (Inr out, lg')"
  shows "out = acc @ map (normalized result) ms \<and> list_all wf_finding ms
         \<and> (ms \<noteq> [] \<longrightarrow> is_str (field result ''Target''))"
  using assms
proof (induction ms arbitrary: acc lg)
  case Nil
  then show ?case by (simp add: ret_Inr)
next
  case (Cons m ms)
  then obtain x lg1 where 1: "parse_misconfig result m lg = (Inr x, lg1)"
    and 2: "misconfig_loop result ms (acc @ [x]) lg1 = (Inr out, lg')"
    by (auto simp: bind_Inr)
  show ?case using parse_misconfig_Inr [OF 1] Cons.IH [OF 2] by simp
qed

lemma py_get_iter_wf:
  assumes "wf_file f"
  shows "py_get f ''Misconfigurations'' (JArr []) = Inr (JArr (findings_of f))"
  using assms
  by (cases f)
     (auto simp: wf_file_def is_dict_def is_list_def has_key_def field_def findings_of_def
           split: option.splits json.splits)

lemma result_loop_wf:
  assumes "list_all wf_file rs"
  shows "\<exists>lg'. result_loop rs acc lg = (Inr (acc @ concat (map records_of rs)), lg')"
  using assms
proof (induction rs arbitrary: acc lg)
  case Nil
  then show ?case by (simp add: ret_def)
next
  case (Cons f rs)
  then have wf: "wf_file f" by simp
  obtain lg1 where 1: "misconfig_loop f (findings_of f) acc lg = (Inr (acc @ records_of f), lg1)"
    using misconfig_loop_wf [of "findings_of f" f acc lg] wf
    by (auto simp: wf_file_def records_of_def)
  obtain lg2 where "result_loop rs (acc @ records_of f) lg1 =
      (Inr ((acc @ records_of f) @ concat (map records_of rs)), lg2)"
    using Cons.IH [of "acc @ records_of f" lg1] Cons.prems by auto
  then show ?case using 1 py_get_iter_wf [OF wf]
    by (simp add: bind_lift_Inr bind_step)
qed

lemma not_wf_finding_str: "\<not> wf_finding (JStr s)"
  by (simp add: wf_finding_def finding_keys_def has_key_def)

text \<open>
  Where the loop over \<open>Misconfigurations\<close> returns, it ran over the findings: a string
  or a dict in that place is iterated too, but its elements are strings, which the body
  rejects.
\<close>

lemma iter_findings:
  assumes "py_get f ''Misconfigurations'' (JArr []) = Inr v" "py_iter v = Inr ms"
    "list_all wf_finding ms"
  shows "ms = findings_of f \<and> is_dict f"
proof -
  obtain d where d: "f = JObj d" using assms(1) by (cases f) auto
  show ?thesis
  proof (cases v)
    case (JArr xs)
    then show ?thesis using assms d
      by (auto simp: findings_of_def field_def is_dict_def split: option.splits)
  next
    case (JStr s)
    then have "ms = []" using assms(2,3) not_wf_finding_str by (cases s) auto
    then show ?thesis using assms(1) d JStr
      by (auto simp: findings_of_def field_def is_dict_def split: option.splits)
  next
    case (JObj kvs)
    then have "ms = []" using assms(2,3) not_wf_finding_str by (cases kvs) auto
    then show ?thesis using assms(1) d JObj
      by (auto simp: findings_of_def field_def is_dict_def split: option.splits)
  qed (use assms(2) in auto)
qed

lemma result_loop_Inr:
  assumes "result_loop rs acc lg = (Inr out, lg')"
  shows "out = acc @ concat (map records_of rs) \<and> list_all ok_file rs"
  using assms
proof (induction rs arbitrary: acc lg)
  case Nil
  then show ?case by (simp add: ret_Inr)
next
  case (Cons f rs)
  then obtain v ms acc1 lg1 where v: "py_get f ''Misconfigurations'' (JArr []) = Inr v"
    and ms: "py_iter v = Inr ms"
    and 1: "misconfig_loop f ms acc lg = (Inr acc1, lg1)"
    and 2: "result_loop rs acc1 lg1 = (Inr out, lg')"
    by (auto simp: bind_Inr lift_Inr)
  from misconfig_loop_Inr [OF 1] have a: "acc1 = acc @ map (normalized f) ms"
    and w: "list_all wf_finding ms" and t: "ms \<noteq> [] \<longrightarrow> is_str (field f ''Target'')"
    by auto
  from iter_findings [OF v ms w] have f: "ms = findings_of f" "is_dict f" by auto
  show ?case using Cons.IH [OF 2] a w t f by (simp add: records_of_def ok_file_def)
qed

lemma not_ok_file_str: "\<not> ok_file (JStr s)"
  by (simp add: ok_file_def is_dict_def)

lemma result_loop_no_misconfigurations:
  "is_dict f \<Longrightarrow> \<not> has_key f ''Misconfigurations'' \<Longrightarrow>
     result_loop (f # rs) acc lg = result_loop rs acc lg"
  by (cases f) (auto simp: is_dict_def has_key_def bind_def lift_def ret_def)

lemma result_loop_append_wf:
  assumes "list_all wf_file pre"
  shows "\<exists>acc' lg'. result_loop (pre @ rest) acc lg = result_loop rest acc' lg'"
  using assms
proof (induction pre arbitrary: acc lg)
  case Nil
  then show ?case by auto
next
  case (Cons f pre)
  then have wf: "wf_file f" by simp
  obtain lg1 where 1: "misconfig_loop f (findings_of f) acc lg = (Inr (acc @ records_of f), lg1)"
    using misconfig_loop_wf [of "findings_of f" f acc lg] wf
    by (auto simp: wf_file_def records_of_def)
  have "result_loop ((f # pre) @ rest) acc lg = result_loop (pre @ rest) (acc @ records_of f) lg1"
    using 1 py_get_iter_wf [OF wf] by (simp add: bind_lift_Inr bind_step)
  then show ?case using Cons.IH [of "acc @ records_of f" lg1] Cons.prems by auto
qed

lemma result_loop_no_target:
  assumes "is_dict f" "\<not> has_key f ''Target''" "field f ''Misconfigurations'' = JArr (m # ms)"
  shows "result_loop (f # post) acc lg = (Inl (KeyError ''Target''), lg)"
proof -
  obtain d where d: "f = JObj d" using assms(1) by (cases f) (auto simp: is_dict_def)
  have g: "py_get f ''Misconfigurations'' (JArr []) = Inr (JArr (m # ms))"
    using assms(3) d by (auto simp: field_def split: option.splits)
  have t: "py_getitem f ''Target'' = Inl (KeyError ''Target'')"
    using assms(2) d by (auto simp: has_key_def)
  have "parse_misconfig f m lg = (Inl (KeyError ''Target''), lg)"
    by (simp add: parse_misconfig_def bind_lift_Inl t)
  then have "misconfig_loop f (m # ms) acc lg = (Inl (KeyError ''Target''), lg)"
    by (simp add: bind_fail)
  then show ?thesis using g by (simp add: bind_lift_Inr bind_fail)
qed

subsection \<open>The whole report\<close>

text \<open>On a well-formed report the parser returns the records of the findings, in order.\<close>

lemma parse_results_wf:
  assumes "wf_results r"
  shows "\<exists>lg'. parse_results r lg = (Inr (concat (map records_of (file_entries r))), lg')"
proof -
  obtain d where d: "r = JObj d" using assms by (cases r) (auto simp: wf_results_def is_dict_def)
  obtain rs where rs: "field r ''Results'' = JArr rs"
    using assms by (cases "field r ''Results''") (auto simp: wf_results_def is_list_def)
  then have g: "py_getitem r ''Results'' = Inr (JArr rs)"
    using d by (auto simp: field_def split: option.splits)
  have fe: "file_entries r = rs" using rs by (simp add: file_entries_def)
  then have "list_all wf_file rs" using assms by (simp add: wf_results_def)
  from result_loop_wf [OF this, of "[]" lg] show ?thesis
    using g fe by (simp add: parse_results_def bind_lift_Inr)
qed

text \<open>Whenever the parser returns, it returns these records, and the report is in order.\<close>

lemma parse_results_Inr:
  assumes "parse_results r lg = (Inr out, lg')"
  shows "out = concat (map records_of (file_entries r)) \<and> list_all ok_file (file_entries r)
         \<and> has_key r ''Results''"
proof -
  from assms obtain v rs where v: "py_getitem r ''Results'' = Inr v"
    and it: "py_iter v = Inr rs" and l: "result_loop rs [] lg = (Inr out, lg')"
    by (auto simp: parse_results_def bind_Inr lift_Inr)
  from result_loop_Inr [OF l] have o: "out = concat (map records_of rs)" and k: "list_all ok_file rs"
    by auto
  have hk: "has_key r ''Results''" and fv: "field r ''Results'' = v"
    using v by (auto simp: py_getitem_Inr)
  have "rs = file_entries r"
  proof (cases v)
    case (JArr xs)
    then show ?thesis using it fv by (simp add: file_entries_def)
  next
    case (JStr s)
    then have "rs = []" using it k not_ok_file_str by (cases s) auto
    then show ?thesis using fv JStr by (simp add: file_entries_def)
  next
    case (JObj kvs)
    then have "rs = []" using it k not_ok_file_str by (cases kvs) auto
    then show ?thesis using fv JObj by (simp add: file_entries_def)
  qed (use it in auto)
  then show ?thesis using o k hk by simp
qed

lemma length_concat_records:
  "length (concat (map records_of fs)) = sum_list (map (\<lambda>f. length (findings_of f)) fs)"
  by (induction fs) (simp_all add: records_of_def)

lemma map_fields_records:
  assumes "\<And>f m. h (normalized f m) = g m"
  shows "map h (concat (map records_of fs)) = map g (concat (map findings_of fs))"
  by (induction fs) (simp_all add: records_of_def assms)

lemmas example_defs = report_def report_other_def report_no_severity_def report_no_target_def
  file_clean_def file_no_target_def finding_fail_def finding_empty_def finding_warn_def
  finding_no_severity_def

lemmas shape_defs = wf_results_def wf_file_def wf_finding_def finding_keys_def is_dict_def
  is_list_def is_str_def has_key_def field_def file_entries_def findings_of_def all_findings_def

lemma wf_report: "wf_results report"
  by (simp add: example_defs shape_defs)

lemma wf_report_other: "wf_results report_other"
  by (simp add: example_defs shape_defs)

text \<open>
  C3: on every well-formed report the parser returns, and whenever it returns, the output
  has one record per finding: its length is the sum of the finding counts of the file
  entries, and it lists the records file by file and, within a file, finding by finding.
  A file entry without \<open>Misconfigurations\<close> is passed over: it adds no record.
\<close>

theorem parse_results_one_record_per_finding:
  "(wf_results r \<longrightarrow> (\<exists>out lg'. parse_results r lg = (Inr out, lg')))
   \<and> (parse_results r lg = (Inr out, lg') \<longrightarrow>
        length out = sum_list (map (\<lambda>f. length (findings_of f)) (file_entries r))
        \<and> out = concat (map (\<lambda>f. map (normalized f) (findings_of f)) (file_entries r)))
   \<and> (is_dict f \<and> \<not> has_key f ''Misconfigurations'' \<longrightarrow>
        result_loop (f # rs) acc lg = result_loop rs acc lg)"
proof -
  have 1: "wf_results r \<longrightarrow> (\<exists>out lg'. parse_results r lg = (Inr out, lg'))"
    using parse_results_wf [of r lg] by blast
  have 2: "parse_results r lg = (Inr out, lg') \<longrightarrow>
        length out = sum_list (map (\<lambda>f. length (findings_of f)) (file_entries r))
        \<and> out = concat (map (\<lambda>f. map (normalized f) (findings_of f)) (file_entries r))"
  proof
    assume "parse_results r lg = (Inr out, lg')"
    then have "out = concat (map records_of (file_entries r))"
      using parse_results_Inr by blast
    then show "length out = sum_list (map (\<lambda>f. length (findings_of f)) (file_entries r))
        \<and> out = concat (map (\<lambda>f. map (normalized f) (findings_of f)) (file_entries r))"
      using length_concat_records [of "file_entries r"] by (simp add: records_of_def [abs_def])
  qed
  show ?thesis using 1 2 result_loop_no_misconfigurations [of f rs acc lg] by blast
qed

theorem parse_results_one_record_per_finding_witness:
  "wf_results report
   \<and> (\<exists>out lg'. parse_results report [] = (Inr out, lg') \<and> length out = 3
        \<and> map scanner_check_name out = [JStr ''t'', JStr ''u'', JStr ''v''])
   \<and> is_dict file_clean \<and> \<not> has_key file_clean ''Misconfigurations''
   \<and> result_loop [file_clean] [] [] = (Inr [], [])"
proof -
  obtain out lg' where p: "parse_results report [] = (Inr out, lg')"
    using parse_results_one_record_per_finding [of report "[]"] wf_report by blast
  have c: "is_dict file_clean \<and> \<not> has_key file_clean ''Misconfigurations''"
    by (simp add: example_defs shape_defs)
  have "length out = 3 \<and> map scanner_check_name out = [JStr ''t'', JStr ''u'', JStr ''v'']
        \<and> result_loop [file_clean] [] [] = (Inr [], [])"
    using parse_results_one_record_per_finding [of report "[]" out lg' file_clean "[]" "[]"] p c
    by (simp add: example_defs shape_defs normalized_def ret_def)
  then show ?thesis using p c wf_report by auto
qed

text \<open>
  C4: the status of a record is \<open>Alert\<close> when the \<open>Status\<close> of its finding is exactly the
  string \<open>FAIL\<close>, and \<open>Pass\<close> for every other value; there is no third status.
\<close>

theorem parse_results_status:
  "(wf_results r \<longrightarrow> (\<exists>out lg'. parse_results r lg = (Inr out, lg')))
   \<and> (parse_results r lg = (Inr out, lg') \<longrightarrow>
        map got out =
          map (\<lambda>m. if field m ''Status'' = JStr ''FAIL'' then Alert else Pass) (all_findings r))
   \<and> (\<forall>x :: CheckStatus. x = Alert \<or> x = Pass)"
proof -
  have "parse_results r lg = (Inr out, lg') \<longrightarrow>
        map got out =
          map (\<lambda>m. if field m ''Status'' = JStr ''FAIL'' then Alert else Pass) (all_findings r)"
  proof
    assume "parse_results r lg = (Inr out, lg')"
    then have "out = concat (map records_of (file_entries r))"
      using parse_results_Inr by blast
    then show "map got out =
          map (\<lambda>m. if field m ''Status'' = JStr ''FAIL'' then Alert else Pass) (all_findings r)"
      by (simp add: all_findings_def map_fields_records normalized_def)
  qed
  moreover have "\<forall>x :: CheckStatus. x = Alert \<or> x = Pass"
    using CheckStatus.exhaust by blast
  ultimately show ?thesis using parse_results_wf [of r lg] by blast
qed

theorem parse_results_status_witness:
  "wf_results report
   \<and> map (\<lambda>m. field m ''Status'') (all_findings report) = [JStr ''FAIL'', JStr ''PASS'', JStr ''WARN'']
   \<and> (\<exists>out lg'. parse_results report [] = (Inr out, lg') \<and> map got out = [Alert, Pass, Pass])"
proof -
  obtain out lg' where p: "parse_results report [] = (Inr out, lg')"
    using parse_results_status [of report "[]"] wf_report by blast
  have "map got out = [Alert, Pass, Pass]"
    using parse_results_status [of report "[]" out lg'] p
    by (simp add: example_defs shape_defs)
  moreover have "map (\<lambda>m. field m ''Status'') (all_findings report) =
      [JStr ''FAIL'', JStr ''PASS'', JStr ''WARN'']"
    by (simp add: example_defs shape_defs)
  ultimately show ?thesis using p wf_report by auto
qed

text \<open>
  C2, as the code has it: a finding whose severity, description or message is empty (or
  any other value) still gets its record, which carries the value as it is. All six
  fields of a finding are read by subscript, so the parser returns only if every finding
  has all six keys.
\<close>

theorem parse_results_finding_fields:
  "(wf_results r \<longrightarrow>
      (\<exists>out lg'. parse_results r lg = (Inr out, lg')
         \<and> map severity out = map (\<lambda>m. field m ''Severity'') (all_findings r)
         \<and> map details out = map (\<lambda>m. field m ''Description'') (all_findings r)
         \<and> map extra out = map (\<lambda>m. field m ''Message'') (all_findings r)))
   \<and> (parse_results r lg = (Inr out, lg') \<longrightarrow>
        (\<forall>m \<in> set (all_findings r). list_all (has_key m) finding_keys))"
proof -
  have 1: "wf_results r \<longrightarrow>
      (\<exists>out lg'. parse_results r lg = (Inr out, lg')
         \<and> map severity out = map (\<lambda>m. field m ''Severity'') (all_findings r)
         \<and> map details out = map (\<lambda>m. field m ''Description'') (all_findings r)
         \<and> map extra out = map (\<lambda>m. field m ''Message'') (all_findings r))"
  proof
    assume "wf_results r"
    then obtain lg' where
      "parse_results r lg = (Inr (concat (map records_of (file_entries r))), lg')"
      using parse_results_wf [of r lg] by blast
    then show "\<exists>out lg'. parse_results r lg = (Inr out, lg')
         \<and> map severity out = map (\<lambda>m. field m ''Severity'') (all_findings r)
         \<and> map details out = map (\<lambda>m. field m ''Description'') (all_findings r)
         \<and> map extra out = map (\<lambda>m. field m ''Message'') (all_findings r)"
      by (simp add: all_findings_def map_fields_records normalized_def)
  qed
  have 2: "parse_results r lg = (Inr out, lg') \<longrightarrow>
        (\<forall>m \<in> set (all_findings r). list_all (has_key m) finding_keys)"
  proof
    assume "parse_results r lg = (Inr out, lg')"
    then have "list_all ok_file (file_entries r)"
      using parse_results_Inr by blast
    then show "\<forall>m \<in> set (all_findings r). list_all (has_key m) finding_keys"
      by (auto simp: all_findings_def ok_file_def wf_finding_def list_all_iff)
  qed
  show ?thesis using 1 2 by blast
qed

theorem parse_results_finding_fields_witness:
  "wf_results report
   \<and> field finding_empty ''Severity'' = JStr [] \<and> field finding_empty ''Description'' = JStr []
   \<and> field finding_empty ''Message'' = JStr []
   \<and> (\<exists>out lg'. parse_results report [] = (Inr out, lg')
        \<and> map severity out = [JStr ''HIGH'', JStr [], JStr ''LOW'']
        \<and> map details out = [JStr ''d'', JStr [], JNull]
        \<and> map extra out = [JStr ''m'', JStr [], JStr ''n'']
        \<and> (\<forall>m \<in> set (all_findings report). list_all (has_key m) finding_keys))"
proof -
  obtain out lg' where p: "parse_results report [] = (Inr out, lg')"
    and s: "map severity out = map (\<lambda>m. field m ''Severity'') (all_findings report)"
    and d: "map details out = map (\<lambda>m. field m ''Description'') (all_findings report)"
    and e: "map extra out = map (\<lambda>m. field m ''Message'') (all_findings report)"
    using parse_results_finding_fields [of report "[]"] wf_report by blast
  have k: "\<forall>m \<in> set (all_findings report). list_all (has_key m) finding_keys"
    using parse_results_finding_fields [of report "[]" out lg'] p by blast
  have v: "map (\<lambda>m. field m ''Severity'') (all_findings report) = [JStr ''HIGH'', JStr [], JStr ''LOW'']"
    "map (\<lambda>m. field m ''Description'') (all_findings report) = [JStr ''d'', JStr [], JNull]"
    "map (\<lambda>m. field m ''Message'') (all_findings report) = [JStr ''m'', JStr [], JStr ''n'']"
    "field finding_empty ''Severity'' = JStr []" "field finding_empty ''Description'' = JStr []"
    "field finding_empty ''Message'' = JStr []"
    by (simp_all add: example_defs shape_defs)
  show ?thesis using p s d e k v wf_report by auto
qed

text \<open>
  A finding that has its id and its status but no \<open>Severity\<close> gets no record: the call
  raises \<open>KeyError\<close> and returns nothing.
\<close>

theorem parse_results_no_severity:
  "has_key finding_no_severity ''ID'' \<and> has_key finding_no_severity ''Status''
   \<and> \<not> has_key finding_no_severity ''Severity''
   \<and> parse_results report_no_severity [] = (Inl (KeyError ''Severity''), [])"
  by (simp add: example_defs has_key_def parse_results_def parse_misconfig_def bind_def lift_def
                ret_def get_checked_path_KSV017)

text \<open>
  C8: two records with the same scanner check id have the same checked path, whatever
  the other attributes of their findings, the files and the reports they come from, and
  the log at the time.
\<close>

theorem checked_path_depends_on_id_only:
  assumes "parse_results r1 lg1 = (Inr out1, lg1')" and "parse_results r2 lg2 = (Inr out2, lg2')"
    and "x \<in> set out1" and "y \<in> set out2" and "scanner_check_id x = scanner_check_id y"
  shows "checked_path x = checked_path y"
proof -
  have rec: "\<And>r lg out lg' z. parse_results r lg = (Inr out, lg') \<Longrightarrow> z \<in> set out \<Longrightarrow>
      checked_path z = path_of (scanner_check_id z)"
  proof -
    fix r lg out lg' z
    assume "parse_results r lg = (Inr out, lg')" and z: "z \<in> set out"
    then have "out = concat (map records_of (file_entries r))"
      using parse_results_Inr by blast
    then obtain f m where "z = normalized f m"
      using z by (auto simp: records_of_def)
    then show "checked_path z = path_of (scanner_check_id z)"
      by (simp add: normalized_def)
  qed
  show ?thesis using rec [OF assms(1,3)] rec [OF assms(2,4)] assms(5) by simp
qed

theorem checked_path_depends_on_id_only_witness:
  "\<exists>out1 lg1 out2 lg2 x y.
     parse_results report [] = (Inr out1, lg1)
     \<and> parse_results report_other [Warning ''w''] = (Inr out2, lg2)
     \<and> x \<in> set out1 \<and> y \<in> set out2
     \<and> scanner_check_id x = scanner_check_id y
     \<and> scanner_check_name x \<noteq> scanner_check_name y
     \<and> severity x \<noteq> severity y \<and> got x \<noteq> got y \<and> details x \<noteq> details y
     \<and> checked_path x = checked_path y"
proof -
  let ?f1 = "JObj [(''Target'', JStr ''POD-001-test.yaml''),
                   (''Misconfigurations'', JArr [finding_fail, finding_empty])]"
  let ?f2 = "JObj [(''Target'', JStr ''other/RBAC-002.yml''),
                   (''Misconfigurations'', JArr [finding_warn])]"
  let ?x = "normalized ?f1 finding_fail"
  let ?y = "normalized ?f2 finding_warn"
  obtain lg1 where p1:
    "parse_results report [] = (Inr (concat (map records_of (file_entries report))), lg1)"
    using parse_results_wf [OF wf_report, of "[]"] by blast
  obtain lg2 where p2:
    "parse_results report_other [Warning ''w''] =
       (Inr (concat (map records_of (file_entries report_other))), lg2)"
    using parse_results_wf [OF wf_report_other, of "[Warning ''w'']"] by blast
  have x: "?x \<in> set (concat (map records_of (file_entries report)))"
    by (simp add: example_defs shape_defs records_of_def)
  have y: "?y \<in> set (concat (map records_of (file_entries report_other)))"
    by (simp add: example_defs shape_defs records_of_def)
  have i: "scanner_check_id ?x = scanner_check_id ?y"
    by (simp add: normalized_def example_defs field_def)
  have d: "scanner_check_name ?x \<noteq> scanner_check_name ?y \<and> severity ?x \<noteq> severity ?y
           \<and> got ?x \<noteq> got ?y \<and> details ?x \<noteq> details ?y"
    by (simp add: normalized_def example_defs field_def)
  have "checked_path ?x = checked_path ?y"
    using checked_path_depends_on_id_only [OF p1 p2 x y i] .
  then show ?thesis using p1 p2 x y i d by blast
qed

text \<open>
  C10, as the code has it: without the top-level key \<open>Results\<close> the call raises
  \<open>KeyError\<close>. The key \<open>Target\<close> is read inside the loop over the findings: the call
  returns only if every file entry with at least one finding has it, and a file entry
  with a finding and no \<open>Target\<close>, after well-formed entries, makes the call raise
  \<open>KeyError\<close>.
\<close>

theorem parse_results_required_keys:
  "(is_dict r \<and> \<not> has_key r ''Results'' \<longrightarrow>
      parse_results r lg = (Inl (KeyError ''Results''), lg))
   \<and> (parse_results r lg = (Inr out, lg') \<longrightarrow>
        has_key r ''Results''
        \<and> (\<forall>f \<in> set (file_entries r). findings_of f \<noteq> [] \<longrightarrow> has_key f ''Target''))
   \<and> (is_dict r \<and> field r ''Results'' = JArr (pre @ f # post) \<and> list_all wf_file pre
        \<and> is_dict f \<and> \<not> has_key f ''Target'' \<and> field f ''Misconfigurations'' = JArr (m # ms) \<longrightarrow>
        (\<exists>lg1. parse_results r lg = (Inl (KeyError ''Target''), lg1)))"
proof -
  have 1: "is_dict r \<and> \<not> has_key r ''Results'' \<longrightarrow>
      parse_results r lg = (Inl (KeyError ''Results''), lg)"
    by (cases r) (auto simp: is_dict_def has_key_def parse_results_def bind_lift_Inl)
  have 2: "parse_results r lg = (Inr out, lg') \<longrightarrow>
        has_key r ''Results''
        \<and> (\<forall>f \<in> set (file_entries r). findings_of f \<noteq> [] \<longrightarrow> has_key f ''Target'')"
  proof
    assume "parse_results r lg = (Inr out, lg')"
    then have "list_all ok_file (file_entries r)" and "has_key r ''Results''"
      using parse_results_Inr by blast+
    then show "has_key r ''Results''
        \<and> (\<forall>f \<in> set (file_entries r). findings_of f \<noteq> [] \<longrightarrow> has_key f ''Target'')"
      using is_str_has_key by (auto simp: ok_file_def list_all_iff)
  qed
  have 3: "is_dict r \<and> field r ''Results'' = JArr (pre @ f # post) \<and> list_all wf_file pre
        \<and> is_dict f \<and> \<not> has_key f ''Target'' \<and> field f ''Misconfigurations'' = JArr (m # ms) \<longrightarrow>
        (\<exists>lg1. parse_results r lg = (Inl (KeyError ''Target''), lg1))"
  proof
    assume a: "is_dict r \<and> field r ''Results'' = JArr (pre @ f # post) \<and> list_all wf_file pre
        \<and> is_dict f \<and> \<not> has_key f ''Target'' \<and> field f ''Misconfigurations'' = JArr (m # ms)"
    then obtain d where d: "r = JObj d" by (cases r) (auto simp: is_dict_def)
    have g: "py_getitem r ''Results'' = Inr (JArr (pre @ f # post))"
      using a d by (auto simp: field_def split: option.splits)
    obtain acc' lg1 where "result_loop (pre @ f # post) [] lg = result_loop (f # post) acc' lg1"
      using result_loop_append_wf [of pre "f # post" "[]" lg] a by blast
    then have "result_loop (pre @ f # post) [] lg = (Inl (KeyError ''Target''), lg1)"
      using result_loop_no_target [of f m ms post acc' lg1] a by simp
    then show "\<exists>lg1. parse_results r lg = (Inl (KeyError ''Target''), lg1)"
      using g by (simp add: parse_results_def bind_lift_Inr)
  qed
  show ?thesis using 1 2 3 by blast
qed

theorem parse_results_required_keys_witness:
  "is_dict (JObj []) \<and> \<not> has_key (JObj []) ''Results''
   \<and> parse_results (JObj []) [] = (Inl (KeyError ''Results''), [])
   \<and> (\<exists>out lg'. parse_results report [] = (Inr out, lg')
        \<and> (\<forall>f \<in> set (file_entries report). findings_of f \<noteq> [] \<longrightarrow> has_key f ''Target''))
   \<and> field report_no_target ''Results'' = JArr ([file_clean] @ file_no_target # [])
   \<and> list_all wf_file [file_clean] \<and> \<not> has_key file_no_target ''Target''
   \<and> field file_no_target ''Misconfigurations'' = JArr (finding_fail # [])
   \<and> (\<exists>lg1. parse_results report_no_target [] = (Inl (KeyError ''Target''), lg1))"
proof -
  have a: "is_dict (JObj []) \<and> \<not> has_key (JObj []) ''Results''"
    by (simp add: is_dict_def has_key_def)
  have 1: "parse_results (JObj []) [] = (Inl (KeyError ''Results''), [])"
    using parse_results_required_keys [where r = "JObj []" and lg = "[]"] a by blast
  obtain out lg' where p: "parse_results report [] = (Inr out, lg')"
    using parse_results_wf [OF wf_report, of "[]"] by blast
  have 2: "\<forall>f \<in> set (file_entries report). findings_of f \<noteq> [] \<longrightarrow> has_key f ''Target''"
    using parse_results_required_keys [where r = report and lg = "[]" and out = out and lg' = lg'] p
    by blast
  have b: "is_dict report_no_target"
    "field report_no_target ''Results'' = JArr ([file_clean] @ file_no_target # [])"
    "list_all wf_file [file_clean]" "is_dict file_no_target" "\<not> has_key file_no_target ''Target''"
    "field file_no_target ''Misconfigurations'' = JArr (finding_fail # [])"
    by (simp_all add: example_defs shape_defs)
  have 3: "\<exists>lg1. parse_results report_no_target [] = (Inl (KeyError ''Target''), lg1)"
    using parse_results_required_keys [where r = report_no_target and lg = "[]"
        and pre = "[file_clean]" and f = file_no_target and post = "[]" and m = finding_fail
        and ms = "[]"] b
    by blast
  show ?thesis using a 1 p 2 b 3 by blast
qed

text \<open>
  A file entry without \<open>Target\<close> and without findings does not make the call raise: the
  call returns the empty list.
\<close>

theorem parse_results_no_target:
  "\<not> has_key (JObj []) ''Target''
   \<and> parse_results (JObj [(''Results'', JArr [JObj []])]) [] = (Inr [], [])"
  by (simp add: has_key_def parse_results_def bind_def lift_def ret_def)

section \<open>The version resolver\<close>

lemma get_version_line:
  "get_version raw =
     (case split_on CHR '' '' (first_line raw) of
        [label, version] \<Rightarrow> Inr version
      | _ \<Rightarrow> Inl ValueError)"
proof -
  obtain ps where "split_on (CHR 0x0A) raw = first_line raw # ps"
    using split_on_hd [of "CHR 0x0A" raw] by (auto simp: first_line_def)
  then show ?thesis by (simp add: get_version_def)
qed

text \<open>
  C7, as the code has it: the resolver returns \<open>v\<close> exactly when the first line is a label,
  one space and \<open>v\<close>, with no other space; it raises \<open>ValueError\<close> exactly when the number
  of spaces in the first line is not one, and it raises nothing else. The separator is
  the space character alone.
\<close>

theorem get_version_one_space:
  "(get_version raw = Inr v \<longleftrightarrow>
      (\<exists>label. first_line raw = label @ CHR '' '' # v \<and> CHR '' '' \<notin> set label \<and> CHR '' '' \<notin> set v))
   \<and> (get_version raw = Inl ValueError \<longleftrightarrow>
        length (filter (\<lambda>c. c = CHR '' '') (first_line raw)) \<noteq> 1)
   \<and> (\<forall>e. get_version raw = Inl e \<longrightarrow> e = ValueError)
   \<and> get_version (''Version: 0.45.0'' @ [CHR 0x0A] @ ''Vulnerability DB: ...'') = Inr ''0.45.0''
   \<and> get_version (''Version:  0.45.0'' @ [CHR 0x0A] @ ''Vulnerability DB: ...'') = Inl ValueError"
proof -
  let ?ps = "split_on CHR '' '' (first_line raw)"
  have 1: "get_version raw = Inr v \<longleftrightarrow> (\<exists>label. ?ps = [label, v])"
    by (auto simp: get_version_line split: list.splits)
  have 2: "get_version raw = Inl ValueError \<longleftrightarrow> length ?ps \<noteq> 2"
    by (auto simp: get_version_line split: list.splits)
  have 3: "\<forall>e. get_version raw = Inl e \<longrightarrow> e = ValueError"
    by (auto simp: get_version_line split: list.splits)
  have 4: "get_version (''Version: 0.45.0'' @ [CHR 0x0A] @ ''Vulnerability DB: ...'') = Inr ''0.45.0''"
    by (simp add: get_version_def)
  have 5: "get_version (''Version:  0.45.0'' @ [CHR 0x0A] @ ''Vulnerability DB: ...'') = Inl ValueError"
    by (simp add: get_version_def)
  show ?thesis using 1 2 3 4 5 by (simp add: split_on_two length_split_on)
qed

theorem get_version_one_space_witness:
  "get_version ''Version: 0.45.0'' = Inr ''0.45.0''
   \<and> (\<exists>label. first_line ''Version: 0.45.0'' = label @ CHR '' '' # ''0.45.0''
         \<and> CHR '' '' \<notin> set label \<and> CHR '' '' \<notin> set ''0.45.0'')
   \<and> get_version ''v0.45.0'' = Inl ValueError"
  using get_version_one_space [of "''Version: 0.45.0''" "''0.45.0''"]
        get_version_one_space [of "''v0.45.0''" "[]"]
  by (simp add: get_version_def first_line_def)

text \<open>
  A first line whose two tokens are separated by a tab has exactly two
  whitespace-delimited tokens, and the resolver raises instead of returning the second.
\<close>

theorem get_version_tab:
  "ws_tokens (first_line (''Version:'' @ [CHR 0x09] @ ''0.45.0'')) = [''Version:'', ''0.45.0'']
   \<and> get_version (''Version:'' @ [CHR 0x09] @ ''0.45.0'') = Inl ValueError"
  by (simp add: ws_tokens_def is_space_def first_line_def get_version_def)

end
